theory Spec2Isabelle
  imports Main "HOL-Library.Word"
begin

section \<open>Values of the debugger client (closure.ts)\<close>

text \<open>
  A JavaScript string is a sequence of UTF-16 code units. \<open>js\<close> embeds an ASCII
  literal.
\<close>

type_synonym jsstring = "16 word list"

definition js :: "string \<Rightarrow> jsstring" where
  "js s = map of_char s"

text \<open>
  A thrown value (or the reason of a rejected promise). An error carries a
  \<open>message\<close>; for a \<open>SyntaxError\<close> of \<open>JSON.parse\<close> the rejected text is kept
  in place of the message, which differs between versions of the engine.
\<close>

datatype js_error =
  TypeError (message: jsstring)
  | Error (message: jsstring)
  | SyntaxError jsstring

text \<open>The reply to \<open>Debugger.getScriptSource\<close>.\<close>

record script_source =
  scriptSource :: jsstring
  bytecode :: "jsstring option"

text \<open>
  \<open>Runtime.RemoteObject\<close> and \<open>Runtime.PropertyDescriptor\<close>, with the fields the
  client reads. An optional field that is \<open>undefined\<close> is \<open>None\<close>. The field
  \<open>value\<close> of a remote object is its primitive value; \<open>pvalue\<close> is the field
  \<open>value\<close> of a descriptor, \<open>rtype\<close> the field \<open>type\<close> of a remote object.
\<close>

record 'v remote_object =
  rtype :: jsstring
  rvalue :: "'v option"
  objectId :: "jsstring option"

record 'v property_descriptor =
  name :: jsstring
  pvalue :: "'v remote_object option"

datatype scope_type =
  Global | Local | With | Closure | Catch | Block | Script | Eval | Module
  | WasmExpressionStack

record 'v scope =
  stype :: scope_type
  object :: "'v remote_object"

record 'v call_frame =
  scopeChain :: "'v scope list"

text \<open>The \<open>params\<close> of a \<open>Debugger.paused\<close> notification.\<close>

record 'v paused_event =
  callFrames :: "'v call_frame list"

record get_properties_params =
  gp_objectId :: "jsstring option"
  ownProperties :: bool
  accessorPropertiesOnly :: bool
  generatePreview :: bool


section \<open>The session and the logger\<close>

text \<open>
  \<open>session.post\<close> is a request to the live debugger: it answers with a result or
  rejects with an error, and the debugger may change state. A session is given by its
  two request handlers over a state \<open>'s\<close>.
\<close>

record ('s, 'v) session =
  getProperties ::
    "'s \<Rightarrow> get_properties_params \<Rightarrow> (js_error + 'v property_descriptor list) \<times> 's"
  getScriptSource :: "'s \<Rightarrow> jsstring \<Rightarrow> (js_error + script_source) \<times> 's"

text \<open>
  Modelled from the spec: the module \<open>./_logger\<close> is not among the sources. The spec
  describes process-wide logging as \<open>log(level, message, context)\<close>-shaped operations that
  never fail. A call appends one entry to the log: the level, the message and the error
  or result passed as context.
\<close>

datatype log_entry =
  LogError jsstring js_error
  | LogDebug jsstring script_source

text \<open>The state the client works on: the state of the session, and the log.\<close>

record 's world =
  sess :: 's
  logged :: "log_entry list"

text \<open>
  Modelled from the spec: \<open>logger.error\<close> and \<open>logger.debug\<close> of the missing module
  \<open>./_logger\<close>; they log and return.
\<close>

definition logger_error :: "jsstring \<Rightarrow> js_error \<Rightarrow> 's world \<Rightarrow> 's world" where
  "logger_error msg err w = w\<lparr>logged := logged w @ [LogError msg err]\<rparr>"

definition logger_debug :: "jsstring \<Rightarrow> script_source \<Rightarrow> 's world \<Rightarrow> 's world" where
  "logger_debug msg result w = w\<lparr>logged := logged w @ [LogDebug msg result]\<rparr>"


section \<open>Resolving script ids\<close>

text \<open>
  \<open>resolveScriptIdToFile\<close>: the request and the debug log are inside \<open>try\<close>; the
  \<open>catch\<close> logs and returns \<open>undefined\<close> (\<open>None\<close>). The result is a sum, as for
  every asynchronous function: \<open>Inl\<close> is a rejected promise.
\<close>

definition resolveScriptIdToFile ::
  "('s, 'v) session \<Rightarrow> jsstring \<Rightarrow> 's world \<Rightarrow> (js_error + script_source option) \<times> 's world"
where
  "resolveScriptIdToFile session scriptId w =
     (case getScriptSource session (sess w) scriptId of
        (Inr result, s') \<Rightarrow>
          (Inr (Some result), logger_debug (js ''Script source'') result (w\<lparr>sess := s'\<rparr>))
      | (Inl err, s') \<Rightarrow>
          (Inr None,
           logger_error (js ''Error resolving scriptId '' @ scriptId @ js '':'') err
             (w\<lparr>sess := s'\<rparr>)))"

text \<open>
  An element of the array \<open>resolveMultipleScriptIds\<close> returns: what
  \<open>resolveScriptIdToFile\<close> returned (a source or \<open>undefined\<close>), or the record
  \<open>{scriptId, filePath}\<close> pushed by the \<open>catch\<close>.
\<close>

datatype lookup_entry =
  Source script_source
  | Undefined
  | Failure (failedId: jsstring) (filePath: jsstring)

text \<open>The loop \<open>for (const scriptId of scriptIds)\<close>, with \<open>results\<close> as accumulator.\<close>

fun resolve_loop ::
  "('s, 'v) session \<Rightarrow> jsstring list \<Rightarrow> lookup_entry list \<Rightarrow> 's world
     \<Rightarrow> lookup_entry list \<times> 's world"
where
  "resolve_loop session [] results w = (results, w)"
| "resolve_loop session (scriptId # rest) results w =
     (case resolveScriptIdToFile session scriptId w of
        (Inr result, w') \<Rightarrow>
          resolve_loop session rest
            (results @ [case result of Some r \<Rightarrow> Source r | None \<Rightarrow> Undefined]) w'
      | (Inl error, w') \<Rightarrow>
          resolve_loop session rest
            (results @ [Failure scriptId (js ''Error: '' @ message error)])
            (logger_error (js ''Error resolving scriptId '' @ scriptId @ js '':'') error w'))"

definition resolveMultipleScriptIds ::
  "('s, 'v) session \<Rightarrow> jsstring list \<Rightarrow> 's world
     \<Rightarrow> (js_error + lookup_entry list) \<times> 's world"
where
  "resolveMultipleScriptIds session scriptIds w =
     (case resolve_loop session scriptIds [] w of (results, w') \<Rightarrow> (Inr results, w'))"

text \<open>
  The replies of the session to the requests for \<open>scriptIds\<close>, issued one after the
  other from state \<open>s\<close>.
\<close>

fun source_replies ::
  "('s, 'v) session \<Rightarrow> jsstring list \<Rightarrow> 's \<Rightarrow> (js_error + script_source) list"
where
  "source_replies session [] s = []"
| "source_replies session (scriptId # rest) s =
     (case getScriptSource session s scriptId of
        (reply, s') \<Rightarrow> reply # source_replies session rest s')"

text \<open>What the resolver holds for a reply: the source, or \<open>undefined\<close> for a failure.\<close>

fun entry_of_reply :: "js_error + script_source \<Rightarrow> lookup_entry" where
  "entry_of_reply (Inr r) = Source r"
| "entry_of_reply (Inl e) = Undefined"


text \<open>The log entry the resolver writes for a request and its reply.\<close>

fun log_of_reply :: "jsstring \<times> (js_error + script_source) \<Rightarrow> log_entry" where
  "log_of_reply (scriptId, Inr r) = LogDebug (js ''Script source'') r"
| "log_of_reply (scriptId, Inl e) =
     LogError (js ''Error resolving scriptId '' @ scriptId @ js '':'') e"

text \<open>
  ``The result holds at index \<open>i\<close> a failure record that references \<open>scriptId\<close>'':
  the outcome is an array whose element \<open>i\<close> is a record \<open>{scriptId, filePath}\<close>
  with that id.
\<close>

definition holds_failure_for ::
  "jsstring \<Rightarrow> (js_error + lookup_entry list) \<Rightarrow> nat \<Rightarrow> bool"
where
  "holds_failure_for scriptId out i =
     (case out of
        Inr results \<Rightarrow>
          i < length results \<and>
          (case results ! i of Failure sid fp \<Rightarrow> sid = scriptId | _ \<Rightarrow> False)
      | Inl e \<Rightarrow> False)"


section \<open>Extracting the closure variables at a breakpoint\<close>

text \<open>
  In a reply to \<open>Runtime.getProperties\<close> the field \<open>value\<close> of a remote object is
  present for primitive values only: \<open>null\<close>, booleans, numbers and strings. Objects
  and functions are referred to by \<open>objectId\<close>. The representation of numbers is a
  parameter \<open>'n\<close>.
\<close>

datatype 'n js_primitive = JsNull | JsBoolean bool | JsNumber 'n | JsString jsstring

text \<open>
  \<open>variableValues\<close> is the object created by the literal \<open>{}\<close>: it has own
  properties and a prototype, which is \<open>Object.prototype\<close> at first.
\<close>

datatype prototype = ObjectPrototype | NullPrototype

record 'n js_object =
  own :: "jsstring \<rightharpoonup> 'n js_primitive"
  prototype :: prototype

type_synonym 'n snapshot = "'n js_object"

definition empty_object :: "'n js_object" where
  "empty_object = \<lparr>own = Map.empty, prototype = ObjectPrototype\<rparr>"

text \<open>
  The assignment \<open>variableValues[key] = v\<close>. An own property is overwritten. Without
  one, the prototype chain decides: \<open>Object.prototype\<close> has an accessor for the key
  \<open>__proto__\<close>, whose setter replaces the prototype of the object when \<open>v\<close> is
  \<open>null\<close> and does nothing for another primitive value; in both cases no own property
  is created. All its other properties are writable data properties, and an object
  whose prototype is \<open>null\<close> inherits nothing: then the assignment creates an own
  property.
\<close>

definition assign_property :: "jsstring \<Rightarrow> 'n js_primitive \<Rightarrow> 'n js_object \<Rightarrow> 'n js_object" where
  "assign_property key v obj =
     (if own obj key = None \<and> key = js ''__proto__'' \<and> prototype obj = ObjectPrototype
      then (if v = JsNull then obj\<lparr>prototype := NullPrototype\<rparr> else obj)
      else obj\<lparr>own := (own obj)(key \<mapsto> v)\<rparr>)"

text \<open>
  The inner loop \<open>for (const prop of result.result)\<close>: the assignment happens under
  \<open>prop.value && prop.value.value !== undefined\<close>.
\<close>

fun props_loop ::
  "'n js_primitive property_descriptor list \<Rightarrow> 'n snapshot \<Rightarrow> 'n snapshot"
where
  "props_loop [] variableValues = variableValues"
| "props_loop (prop # rest) variableValues =
     props_loop rest
       (case pvalue prop of
          Some ro \<Rightarrow>
            (case rvalue ro of
               Some v \<Rightarrow> assign_property (name prop) v variableValues
             | None \<Rightarrow> variableValues)
        | None \<Rightarrow> variableValues)"

text \<open>The parameters of the \<open>Runtime.getProperties\<close> request for a scope.\<close>

definition properties_request :: "'v scope \<Rightarrow> get_properties_params" where
  "properties_request scope =
     \<lparr>gp_objectId = objectId (object scope), ownProperties = False,
      accessorPropertiesOnly = False, generatePreview = False\<rparr>"

text \<open>
  The outer loop \<open>for (const scope of scopes)\<close>. A rejected request is turned by
  \<open>.catch\<close> into a log entry and \<open>null\<close>, and \<open>if (!result) continue\<close> goes on
  with the next scope.
\<close>

fun scopes_loop ::
  "('s, 'n js_primitive) session \<Rightarrow> 'n js_primitive scope list \<Rightarrow> 's world \<Rightarrow> 'n snapshot
     \<Rightarrow> 'n snapshot \<times> 's world"
where
  "scopes_loop session [] w variableValues = (variableValues, w)"
| "scopes_loop session (scope # rest) w variableValues =
     (if stype scope = Closure then
        (case getProperties session (sess w) (properties_request scope) of
           (Inl err, s') \<Rightarrow>
             scopes_loop session rest
               (logger_error (js ''Failed to get properties'') err (w\<lparr>sess := s'\<rparr>))
               variableValues
         | (Inr result, s') \<Rightarrow>
             scopes_loop session rest (w\<lparr>sess := s'\<rparr>) (props_loop result variableValues))
      else scopes_loop session rest w variableValues)"

text \<open>
  \<open>callFrames[0].scopeChain\<close> on an empty array reads a property of \<open>undefined\<close>:
  a \<open>TypeError\<close>, which rejects the promise of the asynchronous function.
\<close>

definition scopeChain_of_undefined :: js_error where
  "scopeChain_of_undefined =
     TypeError (js ''Cannot read properties of undefined (reading '' @ [0x27]
       @ js ''scopeChain'' @ [0x27] @ js '')'')"

definition handleBreakpointHit ::
  "('s, 'n js_primitive) session \<Rightarrow> 'n js_primitive paused_event \<Rightarrow> 's world
     \<Rightarrow> (js_error + 'n snapshot) \<times> 's world"
where
  "handleBreakpointHit session params w =
     (case callFrames params of
        [] \<Rightarrow> (Inl scopeChain_of_undefined, w)
      | frame # _ \<Rightarrow>
          (case scopes_loop session (scopeChain frame) w empty_object of
             (variableValues, w') \<Rightarrow> (Inr variableValues, w')))"

text \<open>
  The replies of the session to the property requests for the closure scopes of a
  scope chain, issued one after the other from state \<open>s\<close>.
\<close>

fun property_replies ::
  "('s, 'v) session \<Rightarrow> 'v scope list \<Rightarrow> 's \<Rightarrow> (js_error + 'v property_descriptor list) list"
where
  "property_replies session [] s = []"
| "property_replies session (scope # rest) s =
     (if stype scope = Closure then
        (case getProperties session s (properties_request scope) of
           (reply, s') \<Rightarrow> reply # property_replies session rest s')
      else property_replies session rest s)"

text \<open>The descriptors of the successful replies, in order, and the errors of the others.\<close>

fun fetched :: "(js_error + 'v property_descriptor list) list \<Rightarrow> 'v property_descriptor list" where
  "fetched [] = []"
| "fetched (Inr result # replies) = result @ fetched replies"
| "fetched (Inl err # replies) = fetched replies"

fun failures :: "(js_error + 'a) list \<Rightarrow> js_error list" where
  "failures [] = []"
| "failures (Inl err # replies) = err # failures replies"
| "failures (Inr result # replies) = failures replies"

text \<open>
  The specification of the snapshot: the primitive value a descriptor carries, the
  bindings of the descriptors that carry one, and their merge, a dictionary in which
  the last binding of a name wins.
\<close>

definition primitive_of :: "'v property_descriptor \<Rightarrow> 'v option" where
  "primitive_of prop = (case pvalue prop of Some ro \<Rightarrow> rvalue ro | None \<Rightarrow> None)"

fun defined_bindings :: "'v property_descriptor list \<Rightarrow> (jsstring \<times> 'v) list" where
  "defined_bindings [] = []"
| "defined_bindings (prop # rest) =
     (case primitive_of prop of
        Some v \<Rightarrow> (name prop, v) # defined_bindings rest
      | None \<Rightarrow> defined_bindings rest)"

definition merge_last_wins :: "'v property_descriptor list \<Rightarrow> (jsstring \<rightharpoonup> 'v)" where
  "merge_last_wins props = map_of (rev (defined_bindings props))"


section \<open>The source-map reference of a source text\<close>

text \<open>
  The regular expression \<^verbatim>\<open>/\/\/[#@]\s*sourceMappingURL=(.+)$/m\<close> works on UTF-16
  code units. \<open>.\<close> matches every code unit but a line terminator; with the flag
  \<open>m\<close>, \<open>$\<close> holds at the end of the input and before a line terminator;
  \<^verbatim>\<open>\s\<close> matches white space and line terminators.
\<close>

definition is_line_terminator :: "16 word \<Rightarrow> bool" where
  "is_line_terminator c \<longleftrightarrow> c = 0x000A \<or> c = 0x000D \<or> c = 0x2028 \<or> c = 0x2029"

definition is_white_space :: "16 word \<Rightarrow> bool" where
  "is_white_space c \<longleftrightarrow>
     c = 0x0009 \<or> c = 0x000A \<or> c = 0x000B \<or> c = 0x000C \<or> c = 0x000D \<or> c = 0x0020
     \<or> c = 0x00A0 \<or> c = 0x1680 \<or> (0x2000 \<le> c \<and> c \<le> 0x200A)
     \<or> c = 0x2028 \<or> c = 0x2029 \<or> c = 0x202F \<or> c = 0x205F \<or> c = 0x3000 \<or> c = 0xFEFF"

definition marker_text :: jsstring where
  "marker_text = js ''sourceMappingURL=''"

text \<open>
  An attempt to match the expression at the start of \<open>s\<close>; the result is the capture
  group 1. \<^verbatim>\<open>\s*\<close> takes all white space, since the literal that follows starts with a
  letter; \<open>(.+)\<close> takes the code units up to the next line terminator or the end,
  where \<open>$\<close> holds, and needs at least one.
\<close>

fun match_here :: "jsstring \<Rightarrow> jsstring option" where
  "match_here (c1 # c2 # c3 # rest) =
     (if c1 = 0x2F \<and> c2 = 0x2F \<and> (c3 = 0x23 \<or> c3 = 0x40) then
        (let r = dropWhile is_white_space rest in
         if take (length marker_text) r = marker_text then
           (let v = takeWhile (\<lambda>c. \<not> is_line_terminator c) (drop (length marker_text) r)
            in if v = [] then None else Some v)
         else None)
      else None)"
| "match_here _ = None"

text \<open>
  \<open>fileContent.match(sourceMapRegex)\<close> without the flag \<open>g\<close>: the attempts go from
  the first position to the last, and the first success is the match.
\<close>

fun regex_exec :: "jsstring \<Rightarrow> jsstring option" where
  "regex_exec [] = match_here []"
| "regex_exec (c # cs) =
     (case match_here (c # cs) of Some v \<Rightarrow> Some v | None \<Rightarrow> regex_exec cs)"

text \<open>\<open>s.indexOf(pat)\<close>; \<open>None\<close> is the result \<open>-1\<close>.\<close>

fun index_of :: "jsstring \<Rightarrow> jsstring \<Rightarrow> nat option" where
  "index_of pat [] = (if pat = [] then Some 0 else None)"
| "index_of pat (c # cs) =
     (if take (length pat) (c # cs) = pat then Some 0
      else map_option Suc (index_of pat cs))"

text \<open>
  \<open>s.split(sep)\<close>: the pieces between the successive occurrences of \<open>sep\<close>; with
  the empty separator, the code units.
\<close>

function split_js :: "jsstring \<Rightarrow> jsstring \<Rightarrow> jsstring list" where
  "split_js sep s =
     (if sep = [] then map (\<lambda>c. [c]) s
      else (case index_of sep s of
              None \<Rightarrow> [s]
            | Some i \<Rightarrow> take i s # split_js sep (drop (i + length sep) s)))"
  by pat_completeness auto
termination
proof (relation "measure (\<lambda>(sep, s). length s)")
  show "wf (measure (\<lambda>(sep, s). length s))" by simp
next
  fix sep s :: jsstring and i
  assume sep: "sep \<noteq> []" and found: "index_of sep s = Some i"
  have fits: "length sep \<le> length xs" if "take (length sep) xs = sep" for xs
  proof -
    have "length (take (length sep) xs) = min (length xs) (length sep)"
      by simp
    with that have "length sep = min (length xs) (length sep)"
      by simp
    then show ?thesis by arith
  qed
  have bound: "j + length sep \<le> length t" if "index_of sep t = Some j" for t j
    using that
  proof (induction t arbitrary: j)
    case Nil
    then show ?case by (simp split: if_splits)
  next
    case (Cons c cs)
    show ?case
    proof (cases "take (length sep) (c # cs) = sep")
      case True
      then have "length sep \<le> length (c # cs)" by (rule fits)
      with True Cons.prems show ?thesis by simp
    next
      case False
      with Cons.prems obtain k where "index_of sep cs = Some k" "j = Suc k"
        by auto
      with Cons.IH show ?thesis by fastforce
    qed
  qed
  from found have "i + length sep \<le> length s" by (rule bound)
  moreover from sep have "0 < length sep" by simp
  ultimately have "length s - (i + length sep) < length s"
    by arith
  then show "((sep, drop (i + length sep) s), (sep, s)) \<in> measure (\<lambda>(sep, s). length s)"
    by simp
qed

declare split_js.simps [simp del]

text \<open>
  The result of \<open>extractSourceMapUrl\<close>: \<open>null\<close>, a string, or \<open>undefined\<close>
  (what element 1 of an array with fewer than two elements would be).
\<close>

datatype url_result = UrlNull | UrlUndefined | Url jsstring

definition extractSourceMapUrl :: "jsstring \<Rightarrow> url_result" where
  "extractSourceMapUrl fileContent =
     (case regex_exec fileContent of
        Some m1 \<Rightarrow>
          (if index_of (js ''base64,'') m1 \<noteq> None then
             (case split_js (js ''base64,'') m1 of
                p0 # p1 # _ \<Rightarrow> Url p1
              | _ \<Rightarrow> UrlUndefined)
           else Url m1)
      | None \<Rightarrow> UrlNull)"

text \<open>
  The specification of a marker: at position \<open>i\<close> the text has \<open>//#\<close> or
  \<open>//@\<close>, white space, \<open>sourceMappingURL=\<close> and the non-empty value \<open>v\<close>,
  which runs to the end of its line.
\<close>

definition marker_at :: "jsstring \<Rightarrow> nat \<Rightarrow> jsstring \<Rightarrow> bool" where
  "marker_at text i v \<longleftrightarrow>
     (\<exists>c ws rest.
        drop i text = [0x2F, 0x2F, c] @ ws @ marker_text @ v @ rest
        \<and> (c = 0x23 \<or> c = 0x40)
        \<and> (\<forall>x \<in> set ws. is_white_space x)
        \<and> v \<noteq> []
        \<and> (\<forall>x \<in> set v. \<not> is_line_terminator x)
        \<and> (rest = [] \<or> is_line_terminator (hd rest)))"

definition marker_line :: "jsstring \<Rightarrow> jsstring" where
  "marker_line v = [0x2F, 0x2F, 0x23] @ marker_text @ v"

definition two_markers :: jsstring where
  "two_markers = js ''//# sourceMappingURL=a.map'' @ [0x0A] @ js ''//# sourceMappingURL=b.map''"

definition twice_base64 :: jsstring where
  "twice_base64 = js ''data:base64,AAbase64,BB''"

definition twice_base64_text :: jsstring where
  "twice_base64_text = js ''a'' @ [0x0A] @ js ''//# sourceMappingURL=data:base64,AAbase64,BB''"


section \<open>Decoding an inline source map\<close>

text \<open>
  \<open>getSourceMapJSON\<close> calls three functions of the platform: \<open>Buffer.from\<close> with
  the encoding \<open>base64\<close>, \<open>toString\<close> of the buffer, and \<open>JSON.parse\<close>. Each
  returns or throws.
\<close>

type_synonym buffer = "8 word list"

text \<open>
  A parsed document, as the tree \<open>JSON.parse\<close> builds: a number is kept as its
  literal (the floating-point value it denotes is not computed), an object as its
  members in the order of the text.
\<close>

datatype json =
  JNull | JBool bool | JNumber jsstring | JString jsstring
  | JArray "json list" | JObject "(jsstring \<times> json) list"

record platform =
  Buffer_from_base64 :: "jsstring \<Rightarrow> js_error + buffer"
  Buffer_toString :: "buffer \<Rightarrow> js_error + jsstring"
  JSON_parse :: "jsstring \<Rightarrow> js_error + json"

text \<open>
  \<open>getSourceMapJSON\<close>: whatever is thrown inside \<open>try\<close> is logged, and the result
  is \<open>null\<close>.
\<close>

definition getSourceMapJSON ::
  "platform \<Rightarrow> jsstring \<Rightarrow> 's world \<Rightarrow> (js_error + json) \<times> 's world"
where
  "getSourceMapJSON pf base64SourceMap w =
     (case Buffer_from_base64 pf base64SourceMap of
        Inl e \<Rightarrow> (Inr JNull, logger_error (js ''Error parsing source map'') e w)
      | Inr buf \<Rightarrow>
          (case Buffer_toString pf buf of
             Inl e \<Rightarrow> (Inr JNull, logger_error (js ''Error parsing source map'') e w)
           | Inr sourceMapContent \<Rightarrow>
               (case JSON_parse pf sourceMapContent of
                  Inl e \<Rightarrow> (Inr JNull, logger_error (js ''Error parsing source map'') e w)
                | Inr doc \<Rightarrow> (Inr doc, w))))"


subsection \<open>The platform functions of Node.js\<close>

text \<open>
  Modelled from the documentation and the behaviour of Node.js: \<open>Buffer.from(s, 'base64')\<close>
  does not throw. It reads the characters of both base64 alphabets (of a code unit the
  low eight bits are looked at), skips every other character, and stops at the first
  \<open>=\<close>. Four characters give three bytes; of an incomplete last group, two characters
  give one byte and three give two.
\<close>

definition unbase64 :: "16 word \<Rightarrow> nat option" where
  "unbase64 c =
     (let x = unat c mod 256 in
      if 65 \<le> x \<and> x \<le> 90 then Some (x - 65)
      else if 97 \<le> x \<and> x \<le> 122 then Some (x - 71)
      else if 48 \<le> x \<and> x \<le> 57 then Some (x + 4)
      else if x = 43 \<or> x = 45 then Some 62
      else if x = 47 \<or> x = 95 then Some 63
      else None)"

fun base64_sextets :: "jsstring \<Rightarrow> nat list" where
  "base64_sextets [] = []"
| "base64_sextets (c # cs) =
     (case unbase64 c of
        Some v \<Rightarrow> v # base64_sextets cs
      | None \<Rightarrow> if unat c mod 256 = 61 then [] else base64_sextets cs)"

fun sextets_bytes :: "nat list \<Rightarrow> buffer" where
  "sextets_bytes (a # b # c # d # rest) =
     of_nat (a * 4 + b div 16) # of_nat ((b mod 16) * 16 + c div 4)
       # of_nat ((c mod 4) * 64 + d) # sextets_bytes rest"
| "sextets_bytes [a, b, c] = [of_nat (a * 4 + b div 16), of_nat ((b mod 16) * 16 + c div 4)]"
| "sextets_bytes [a, b] = [of_nat (a * 4 + b div 16)]"
| "sextets_bytes _ = []"

definition node_from_base64 :: "jsstring \<Rightarrow> buffer" where
  "node_from_base64 s = sextets_bytes (base64_sextets s)"



text \<open>
  Modelled from the documentation: \<open>buf.toString()\<close> decodes UTF-8 and does not throw;
  every ill-formed sequence becomes U+FFFD, and a code point above U+FFFF a surrogate
  pair. The state is the number of bytes still needed, the code point so far, and the
  bounds of the next byte.
\<close>

definition code_units :: "nat \<Rightarrow> jsstring" where
  "code_units cp =
     (if cp < 65536 then [of_nat cp]
      else [of_nat (55296 + (cp - 65536) div 1024), of_nat (56320 + (cp - 65536) mod 1024)])"

function utf8_decode :: "nat \<Rightarrow> nat \<Rightarrow> nat \<Rightarrow> nat \<Rightarrow> buffer \<Rightarrow> jsstring" where
  "utf8_decode needed cp lower upper [] = (if needed = 0 then [] else [0xFFFD])"
| "utf8_decode needed cp lower upper (b # bs) =
     (if needed = 0 then
        (if unat b < 128 then of_nat (unat b) # utf8_decode 0 0 128 191 bs
         else if 194 \<le> unat b \<and> unat b \<le> 223 then utf8_decode 1 (unat b mod 32) 128 191 bs
         else if 224 \<le> unat b \<and> unat b \<le> 239 then
           utf8_decode 2 (unat b mod 16) (if unat b = 224 then 160 else 128)
             (if unat b = 237 then 159 else 191) bs
         else if 240 \<le> unat b \<and> unat b \<le> 244 then
           utf8_decode 3 (unat b mod 8) (if unat b = 240 then 144 else 128)
             (if unat b = 244 then 143 else 191) bs
         else 0xFFFD # utf8_decode 0 0 128 191 bs)
      else if lower \<le> unat b \<and> unat b \<le> upper then
        (if needed = 1 then code_units (cp * 64 + unat b mod 64) @ utf8_decode 0 0 128 191 bs
         else utf8_decode (needed - 1) (cp * 64 + unat b mod 64) 128 191 bs)
      else 0xFFFD # utf8_decode 0 0 128 191 (b # bs))"
  by pat_completeness auto
termination
  by (relation "measure (\<lambda>(needed, cp, lower, upper, bs).
        2 * length bs + (if needed = 0 then 0 else 1))") auto

definition node_toString :: "buffer \<Rightarrow> jsstring" where
  "node_toString buf = utf8_decode 0 0 128 191 buf"

text \<open>
  Modelled from the ECMAScript specification: the grammar of \<open>JSON.parse\<close>. White
  space is space, tab, line feed and carriage return.
\<close>

definition is_json_space :: "16 word \<Rightarrow> bool" where
  "is_json_space c \<longleftrightarrow> c = 0x20 \<or> c = 0x09 \<or> c = 0x0A \<or> c = 0x0D"

definition skip_space :: "jsstring \<Rightarrow> jsstring" where
  "skip_space s = dropWhile is_json_space s"

definition is_digit :: "16 word \<Rightarrow> bool" where
  "is_digit c \<longleftrightarrow> 0x30 \<le> c \<and> c \<le> 0x39"

definition hex_value :: "16 word \<Rightarrow> nat option" where
  "hex_value c =
     (if 0x30 \<le> c \<and> c \<le> 0x39 then Some (unat c - 48)
      else if 0x41 \<le> c \<and> c \<le> 0x46 then Some (unat c - 55)
      else if 0x61 \<le> c \<and> c \<le> 0x66 then Some (unat c - 87)
      else None)"

definition simple_escape :: "16 word \<Rightarrow> 16 word option" where
  "simple_escape c =
     (if c = 0x22 then Some 0x22
      else if c = 0x5C then Some 0x5C
      else if c = 0x2F then Some 0x2F
      else if c = 0x62 then Some 0x08
      else if c = 0x66 then Some 0x0C
      else if c = 0x6E then Some 0x0A
      else if c = 0x72 then Some 0x0D
      else if c = 0x74 then Some 0x09
      else None)"

definition prepend :: "16 word \<Rightarrow> (jsstring \<times> jsstring) option \<Rightarrow> (jsstring \<times> jsstring) option" where
  "prepend c r = (case r of None \<Rightarrow> None | Some (str, rest) \<Rightarrow> Some (c # str, rest))"

fun json_string :: "jsstring \<Rightarrow> (jsstring \<times> jsstring) option" where
  "json_string [] = None"
| "json_string (c # cs) =
     (if c = 0x22 then Some ([], cs)
      else if c = 0x5C then
        (case cs of
           [] \<Rightarrow> None
         | e # es \<Rightarrow>
             if e = 0x75 then
               (case es of
                  h1 # h2 # h3 # h4 # rest \<Rightarrow>
                    (case (hex_value h1, hex_value h2, hex_value h3, hex_value h4) of
                       (Some a, Some b, Some c, Some d) \<Rightarrow>
                         prepend (of_nat (((a * 16 + b) * 16 + c) * 16 + d)) (json_string rest)
                     | _ \<Rightarrow> None)
                | _ \<Rightarrow> None)
             else
               (case simple_escape e of
                  Some u \<Rightarrow> prepend u (json_string es)
                | None \<Rightarrow> None))
      else if c < 0x20 then None
      else prepend c (json_string cs))"

definition json_digits :: "jsstring \<Rightarrow> (jsstring \<times> jsstring) option" where
  "json_digits s =
     (if takeWhile is_digit s = [] then None
      else Some (takeWhile is_digit s, dropWhile is_digit s))"

definition json_int :: "jsstring \<Rightarrow> (jsstring \<times> jsstring) option" where
  "json_int s =
     (case s of
        [] \<Rightarrow> None
      | d # ds \<Rightarrow>
          if d = 0x30 then Some ([d], ds)
          else if is_digit d then Some (d # takeWhile is_digit ds, dropWhile is_digit ds)
          else None)"

definition json_frac :: "jsstring \<Rightarrow> (jsstring \<times> jsstring) option" where
  "json_frac s =
     (case s of
        [] \<Rightarrow> Some ([], s)
      | c # cs \<Rightarrow>
          if c = 0x2E then prepend c (json_digits cs)
          else Some ([], s))"

definition json_exp :: "jsstring \<Rightarrow> (jsstring \<times> jsstring) option" where
  "json_exp s =
     (case s of
        [] \<Rightarrow> Some ([], s)
      | c # cs \<Rightarrow>
          if c = 0x65 \<or> c = 0x45 then
            (case cs of
               [] \<Rightarrow> None
             | g # gs \<Rightarrow>
                 if g = 0x2B \<or> g = 0x2D then prepend c (prepend g (json_digits gs))
                 else prepend c (json_digits cs))
          else Some ([], s))"

definition json_unsigned :: "jsstring \<Rightarrow> (jsstring \<times> jsstring) option" where
  "json_unsigned s =
     (case json_int s of
        None \<Rightarrow> None
      | Some (i, r1) \<Rightarrow>
          (case json_frac r1 of
             None \<Rightarrow> None
           | Some (f, r2) \<Rightarrow>
               (case json_exp r2 of
                  None \<Rightarrow> None
                | Some (e, r3) \<Rightarrow> Some (i @ f @ e, r3))))"

definition json_number :: "jsstring \<Rightarrow> (jsstring \<times> jsstring) option" where
  "json_number s =
     (case s of
        [] \<Rightarrow> None
      | c # cs \<Rightarrow> if c = 0x2D then prepend c (json_unsigned cs) else json_unsigned s)"

definition tag :: "('a \<Rightarrow> json) \<Rightarrow> ('a \<times> jsstring) option \<Rightarrow> (json \<times> jsstring) option" where
  "tag f r = (case r of None \<Rightarrow> None | Some (x, rest) \<Rightarrow> Some (f x, rest))"

fun json_value :: "nat \<Rightarrow> jsstring \<Rightarrow> (json \<times> jsstring) option"
  and json_elements :: "nat \<Rightarrow> jsstring \<Rightarrow> (json list \<times> jsstring) option"
  and json_members :: "nat \<Rightarrow> jsstring \<Rightarrow> ((jsstring \<times> json) list \<times> jsstring) option"
where
  "json_value fuel s =
     (if fuel = 0 then None
      else
        (case s of
           [] \<Rightarrow> None
         | c # cs \<Rightarrow>
             if c = 0x7B then
               (case skip_space cs of
                  [] \<Rightarrow> None
                | d # ds \<Rightarrow>
                    if d = 0x7D then Some (JObject [], ds)
                    else tag JObject (json_members (fuel - 1) (d # ds)))
             else if c = 0x5B then
               (case skip_space cs of
                  [] \<Rightarrow> None
                | d # ds \<Rightarrow>
                    if d = 0x5D then Some (JArray [], ds)
                    else tag JArray (json_elements (fuel - 1) (d # ds)))
             else if c = 0x22 then tag JString (json_string cs)
             else if take 4 s = js ''true'' then Some (JBool True, drop 4 s)
             else if take 5 s = js ''false'' then Some (JBool False, drop 5 s)
             else if take 4 s = js ''null'' then Some (JNull, drop 4 s)
             else tag JNumber (json_number s)))"
| "json_elements fuel s =
     (if fuel = 0 then None
      else
        (case json_value (fuel - 1) s of
           None \<Rightarrow> None
         | Some (v, rest) \<Rightarrow>
             (case skip_space rest of
                [] \<Rightarrow> None
              | c # cs \<Rightarrow>
                  if c = 0x2C then
                    (case json_elements (fuel - 1) (skip_space cs) of
                       None \<Rightarrow> None
                     | Some (vs, rest') \<Rightarrow> Some (v # vs, rest'))
                  else if c = 0x5D then Some ([v], cs)
                  else None)))"
| "json_members fuel s =
     (if fuel = 0 then None
      else
        (case s of
           [] \<Rightarrow> None
         | q # qs \<Rightarrow>
             if q \<noteq> 0x22 then None
             else
               (case json_string qs of
                  None \<Rightarrow> None
                | Some (key, r1) \<Rightarrow>
                    (case skip_space r1 of
                       [] \<Rightarrow> None
                     | c # cs \<Rightarrow>
                         if c \<noteq> 0x3A then None
                         else
                           (case json_value (fuel - 1) (skip_space cs) of
                              None \<Rightarrow> None
                            | Some (v, r2) \<Rightarrow>
                                (case skip_space r2 of
                                   [] \<Rightarrow> None
                                 | d # ds \<Rightarrow>
                                     if d = 0x2C then
                                       (case json_members (fuel - 1) (skip_space ds) of
                                          None \<Rightarrow> None
                                        | Some (ms, r3) \<Rightarrow> Some ((key, v) # ms, r3))
                                     else if d = 0x7D then Some ([(key, v)], ds)
                                     else None))))))"

text \<open>
  The whole text is one value between white space. Every call of the three functions
  above uses up a unit of fuel, and two calls in a row read at least one character, so
  the fuel is enough for every text.
\<close>

definition json_parse_text :: "jsstring \<Rightarrow> json option" where
  "json_parse_text text =
     (case json_value (2 * length text + 2) (skip_space text) of
        None \<Rightarrow> None
      | Some (v, rest) \<Rightarrow> if skip_space rest = [] then Some v else None)"

declare json_value.simps [simp del] json_elements.simps [simp del] json_members.simps [simp del]

text \<open>
  The platform: the decoders return, \<open>JSON.parse\<close> throws a \<open>SyntaxError\<close> for a
  text that is not a document.
\<close>

definition node :: platform where
  "node =
     \<lparr>Buffer_from_base64 = (\<lambda>s. Inr (node_from_base64 s)),
      Buffer_toString = (\<lambda>buf. Inr (node_toString buf)),
      JSON_parse = (\<lambda>text.
        case json_parse_text text of
          Some doc \<Rightarrow> Inr doc
        | None \<Rightarrow> Inl (SyntaxError text))\<rparr>"


section \<open>Waiting for the next pause event\<close>

text \<open>
  The session is an event emitter. Its listeners for \<open>Debugger.paused\<close> are kept in
  registration order; a listener registered with \<open>once\<close> is marked. The callback
  that \<open>getNextPausedEvent\<close> registers is \<open>PausedHandler p\<close>, where \<open>p\<close> is
  the promise it resolves; callbacks registered by other code are \<open>Foreign\<close>: they
  return normally and leave the listeners and these promises alone.
\<close>

datatype callback = PausedHandler nat | Foreign nat

datatype listener = Listener (is_once: bool) (callback: callback)

text \<open>
  A promise is pending or fulfilled (\<open>reject\<close> is never called). The promises
  created so far are numbered; \<open>console\<close> is what \<open>console.log\<close> printed.
\<close>

datatype 'e promise = Pending | Fulfilled 'e

record 'e runtime =
  listeners :: "listener list"
  promises :: "'e promise list"
  console :: "'e list"

text \<open>
  \<open>new Promise\<close> creates a pending promise. \<open>resolve\<close> settles a pending promise
  and has no effect on a settled one.
\<close>

definition new_promise :: "'e runtime \<Rightarrow> nat \<times> 'e runtime" where
  "new_promise rt = (length (promises rt), rt\<lparr>promises := promises rt @ [Pending]\<rparr>)"

definition resolve :: "nat \<Rightarrow> 'e \<Rightarrow> 'e runtime \<Rightarrow> 'e runtime" where
  "resolve p params rt =
     (if p < length (promises rt) \<and> promises rt ! p = Pending
      then rt\<lparr>promises := (promises rt)[p := Fulfilled params]\<rparr>
      else rt)"

text \<open>\<open>session.once\<close> appends a one-time listener.\<close>

definition session_once :: "callback \<Rightarrow> 'e runtime \<Rightarrow> 'e runtime" where
  "session_once cb rt = rt\<lparr>listeners := listeners rt @ [Listener True cb]\<rparr>"

text \<open>
  The body of the registered callback: \<open>console.log\<close>, then \<open>resolve(params)\<close>.
\<close>

fun invoke :: "callback \<Rightarrow> 'e \<Rightarrow> 'e runtime \<Rightarrow> 'e runtime" where
  "invoke (PausedHandler p) params rt = resolve p params (rt\<lparr>console := console rt @ [params]\<rparr>)"
| "invoke (Foreign k) params rt = rt"

text \<open>
  The session emits a pause event: every listener registered at that moment is called
  with the event, in order, and the one-time listeners are removed.
\<close>

definition emit :: "'e \<Rightarrow> 'e runtime \<Rightarrow> 'e runtime" where
  "emit params rt =
     fold (\<lambda>l. invoke (callback l) params) (listeners rt)
       (rt\<lparr>listeners := filter (\<lambda>l. \<not> is_once l) (listeners rt)\<rparr>)"

text \<open>
  \<open>getNextPausedEvent\<close>: the executor of the new promise registers the one-time
  listener; the promise is returned.
\<close>

definition getNextPausedEvent :: "'e runtime \<Rightarrow> nat \<times> 'e runtime" where
  "getNextPausedEvent rt =
     (case new_promise rt of (p, rt1) \<Rightarrow> (p, session_once (PausedHandler p) rt1))"


section \<open>A concrete session\<close>

text \<open>
  A session whose state counts the requests. It knows three scope objects: \<open>1\<close> holds
  a number \<open>x\<close>, a function \<open>f\<close> and an accessor \<open>g\<close>; the request for
  \<open>2\<close> fails; \<open>3\<close> holds numbers \<open>x\<close> and \<open>y\<close>. Its source lookup
  fails for the script id \<open>b\<close> only.
\<close>

definition x1_desc :: "int js_primitive property_descriptor" where
  "x1_desc = \<lparr>name = js ''x'',
     pvalue = Some \<lparr>rtype = js ''number'', rvalue = Some (JsNumber 1), objectId = None\<rparr>\<rparr>"

definition f_desc :: "int js_primitive property_descriptor" where
  "f_desc = \<lparr>name = js ''f'',
     pvalue = Some \<lparr>rtype = js ''function'', rvalue = None, objectId = Some (js ''10'')\<rparr>\<rparr>"

definition g_desc :: "int js_primitive property_descriptor" where
  "g_desc = \<lparr>name = js ''g'', pvalue = None\<rparr>"

definition x2_desc :: "int js_primitive property_descriptor" where
  "x2_desc = \<lparr>name = js ''x'',
     pvalue = Some \<lparr>rtype = js ''number'', rvalue = Some (JsNumber 2), objectId = None\<rparr>\<rparr>"

definition y_desc :: "int js_primitive property_descriptor" where
  "y_desc = \<lparr>name = js ''y'',
     pvalue = Some \<lparr>rtype = js ''number'', rvalue = Some (JsNumber 5), objectId = None\<rparr>\<rparr>"

definition demo_session :: "(nat, int js_primitive) session" where
  "demo_session =
     \<lparr>getProperties = (\<lambda>s p.
        if gp_objectId p = Some (js ''1'') then (Inr [x1_desc, f_desc, g_desc], Suc s)
        else if gp_objectId p = Some (js ''2'') then (Inl (Error (js ''context destroyed'')), Suc s)
        else if gp_objectId p = Some (js ''3'') then (Inr [x2_desc, y_desc], Suc s)
        else (Inr [], Suc s)),
      getScriptSource = (\<lambda>s scriptId.
        if scriptId = js ''b'' then (Inl (Error (js ''no script'')), Suc s)
        else (Inr \<lparr>scriptSource = scriptId, bytecode = None\<rparr>, Suc s))\<rparr>"

definition world0 :: "nat world" where
  "world0 = \<lparr>sess = 0, logged = []\<rparr>"

definition demo_scope :: "scope_type \<Rightarrow> string \<Rightarrow> int js_primitive scope" where
  "demo_scope t i =
     \<lparr>stype = t, object = \<lparr>rtype = js ''object'', rvalue = None, objectId = Some (js i)\<rparr>\<rparr>"

definition demo_frame :: "int js_primitive call_frame" where
  "demo_frame = \<lparr>scopeChain =
     [demo_scope Local ''0'', demo_scope Closure ''1'', demo_scope Closure ''2'',
      demo_scope Closure ''3'', demo_scope Global ''4'']\<rparr>"

definition demo_event :: "int js_primitive paused_event" where
  "demo_event = \<lparr>callFrames = [demo_frame]\<rparr>"

definition no_frames :: "int js_primitive paused_event" where
  "no_frames = \<lparr>callFrames = []\<rparr>"


text \<open>
  Descriptors of a captured variable named \<open>__proto__\<close>, holding the number 5 and
  holding \<open>null\<close>.
\<close>

definition proto5_desc :: "int js_primitive property_descriptor" where
  "proto5_desc = \<lparr>name = js ''__proto__'',
     pvalue = Some \<lparr>rtype = js ''number'', rvalue = Some (JsNumber 5), objectId = None\<rparr>\<rparr>"

definition proto_null_desc :: "int js_primitive property_descriptor" where
  "proto_null_desc = \<lparr>name = js ''__proto__'',
     pvalue = Some \<lparr>rtype = js ''object'', rvalue = Some JsNull, objectId = None\<rparr>\<rparr>"




section \<open>Properties of the resolver\<close>

lemma resolveScriptIdToFile_returns:
  "fst (resolveScriptIdToFile session scriptId w) =
     Inr (case fst (getScriptSource session (sess w) scriptId) of
            Inr r \<Rightarrow> Some r | Inl e \<Rightarrow> None)"
  by (simp add: resolveScriptIdToFile_def split: prod.split sum.split)

lemma resolveScriptIdToFile_sess:
  "sess (snd (resolveScriptIdToFile session scriptId w)) =
     snd (getScriptSource session (sess w) scriptId)"
  by (simp add: resolveScriptIdToFile_def logger_debug_def logger_error_def
      split: prod.split sum.split)

lemma resolveScriptIdToFile_logged:
  "logged (snd (resolveScriptIdToFile session scriptId w)) =
     logged w @ [log_of_reply (scriptId, fst (getScriptSource session (sess w) scriptId))]"
  by (simp add: resolveScriptIdToFile_def logger_debug_def logger_error_def
      split: prod.split sum.split)

lemma resolve_loop_replies:
  "fst (resolve_loop session scriptIds results w) =
     results @ map entry_of_reply (source_replies session scriptIds (sess w))"
proof (induction scriptIds arbitrary: results w)
  case Nil
  show ?case by simp
next
  case (Cons scriptId rest)
  obtain reply s' where g: "getScriptSource session (sess w) scriptId = (reply, s')"
    by (cases "getScriptSource session (sess w) scriptId")
  obtain out w' where r: "resolveScriptIdToFile session scriptId w = (out, w')"
    by (cases "resolveScriptIdToFile session scriptId w")
  from r g have out: "out = Inr (case reply of Inr r \<Rightarrow> Some r | Inl e \<Rightarrow> None)"
    using resolveScriptIdToFile_returns [of session scriptId w] by simp
  from r g have s': "sess w' = s'"
    using resolveScriptIdToFile_sess [of session scriptId w] by simp
  show ?case
    by (cases reply) (simp_all add: r g out s' Cons.IH)
qed

lemma resolve_loop_logged:
  "logged (snd (resolve_loop session scriptIds results w)) =
     logged w @ map log_of_reply (zip scriptIds (source_replies session scriptIds (sess w)))"
proof (induction scriptIds arbitrary: results w)
  case Nil
  show ?case by simp
next
  case (Cons scriptId rest)
  obtain reply s' where g: "getScriptSource session (sess w) scriptId = (reply, s')"
    by (cases "getScriptSource session (sess w) scriptId")
  obtain out w' where r: "resolveScriptIdToFile session scriptId w = (out, w')"
    by (cases "resolveScriptIdToFile session scriptId w")
  from r g have out: "out = Inr (case reply of Inr r \<Rightarrow> Some r | Inl e \<Rightarrow> None)"
    using resolveScriptIdToFile_returns [of session scriptId w] by simp
  from r g have s': "sess w' = s'"
    using resolveScriptIdToFile_sess [of session scriptId w] by simp
  from r g have l: "logged w' = logged w @ [log_of_reply (scriptId, reply)]"
    using resolveScriptIdToFile_logged [of session scriptId w] by simp
  show ?case
    by (cases reply) (simp_all add: r g out s' l Cons.IH)
qed

lemma source_replies_length:
  "length (source_replies session scriptIds s) = length scriptIds"
  by (induction scriptIds arbitrary: s) (simp_all split: prod.split)

lemma demo_replies:
  "source_replies demo_session [js ''a'', js ''b'', js ''c''] (sess world0) =
     [Inr \<lparr>scriptSource = js ''a'', bytecode = None\<rparr>,
      Inl (Error (js ''no script'')),
      Inr \<lparr>scriptSource = js ''c'', bytecode = None\<rparr>]"
  by (simp add: demo_session_def js_def world0_def)

text \<open>
  Claim C5. For every session and every list of script ids, the resolver returns normally
  (no exception escapes); the result holds, for each requested id in the requested order,
  the entry for the session's reply to that id, so its length is the length of the input;
  for the empty list it is empty.
\<close>

theorem resolveMultipleScriptIds_total_ordered:
  "fst (resolveMultipleScriptIds session scriptIds w) =
     Inr (map entry_of_reply (source_replies session scriptIds (sess w)))
   \<and> length (source_replies session scriptIds (sess w)) = length scriptIds
   \<and> fst (resolveMultipleScriptIds session [] w) = Inr []"
proof -
  have len: "length (source_replies session scriptIds s) = length scriptIds" for s
    by (induction scriptIds arbitrary: s) (simp_all split: prod.split)
  have res: "fst (resolveMultipleScriptIds session ids w) =
      Inr (map entry_of_reply (source_replies session ids (sess w)))" for ids
    using resolve_loop_replies [of session ids "[]" w]
    by (cases "resolve_loop session ids [] w") (simp add: resolveMultipleScriptIds_def)
  show ?thesis
    using res [of scriptIds] res [of "[]"] len by simp
qed

text \<open>
  Claim C2, as stated, fails: \<open>resolveScriptIdToFile\<close> catches the failed lookup
  itself and returns \<open>undefined\<close>, so the \<open>catch\<close> of
  \<open>resolveMultipleScriptIds\<close> never sees it. For the ids \<open>a, b, c\<close> and a session
  that fails for \<open>b\<close> only, index 1 of the result is \<open>undefined\<close>, not a failure
  record for \<open>b\<close>.
\<close>

theorem resolveMultipleScriptIds_failed_lookup_counterexample:
  "fst (getScriptSource demo_session 0 (js ''b'')) = Inl (Error (js ''no script''))
   \<and> fst (resolveMultipleScriptIds demo_session [js ''a'', js ''b'', js ''c''] world0) =
       Inr [Source \<lparr>scriptSource = js ''a'', bytecode = None\<rparr>, Undefined,
            Source \<lparr>scriptSource = js ''c'', bytecode = None\<rparr>]
   \<and> \<not> holds_failure_for (js ''b'')
         (fst (resolveMultipleScriptIds demo_session [js ''a'', js ''b'', js ''c''] world0)) 1"
  by (simp add: resolveMultipleScriptIds_def resolveScriptIdToFile_def demo_session_def
      world0_def js_def logger_debug_def logger_error_def holds_failure_for_def)

text \<open>
  Claim C2, amended. If the session's source lookup fails for exactly one of the
  requested ids, the one at index \<open>k\<close>, the resolver returns a result of the same
  length in which every other index holds the resolved source and index \<open>k\<close> holds
  \<open>undefined\<close>; the failing script id appears in the error that is logged.
\<close>

theorem resolveMultipleScriptIds_failed_lookup:
  assumes k: "k < length scriptIds"
    and fails: "\<forall>i < length scriptIds.
        (\<exists>e. source_replies session scriptIds (sess w) ! i = Inl e) \<longleftrightarrow> i = k"
  shows "\<exists>results e. fst (resolveMultipleScriptIds session scriptIds w) = Inr results
      \<and> length results = length scriptIds
      \<and> results ! k = Undefined
      \<and> source_replies session scriptIds (sess w) ! k = Inl e
      \<and> LogError (js ''Error resolving scriptId '' @ scriptIds ! k @ js '':'') e
           \<in> set (logged (snd (resolveMultipleScriptIds session scriptIds w)))
      \<and> (\<forall>i < length scriptIds. i \<noteq> k \<longrightarrow>
            (\<exists>r. source_replies session scriptIds (sess w) ! i = Inr r
               \<and> results ! i = Source r))"
proof -
  let ?replies = "source_replies session scriptIds (sess w)"
  let ?results = "map entry_of_reply ?replies"
  have len: "length (source_replies session scriptIds s) = length scriptIds" for s
    by (induction scriptIds arbitrary: s) (simp_all split: prod.split)
  obtain rs w' where loop: "resolve_loop session scriptIds [] w = (rs, w')"
    by (cases "resolve_loop session scriptIds [] w")
  have res: "fst (resolveMultipleScriptIds session scriptIds w) = Inr ?results"
    using resolve_loop_replies [of session scriptIds "[]" w] loop
    by (simp add: resolveMultipleScriptIds_def)
  have lg: "logged (snd (resolveMultipleScriptIds session scriptIds w)) =
      logged w @ map log_of_reply (zip scriptIds ?replies)"
    using resolve_loop_logged [of session scriptIds "[]" w] loop
    by (simp add: resolveMultipleScriptIds_def)
  from fails k obtain e where e: "?replies ! k = Inl e" by blast
  have undef: "?results ! k = Undefined"
    using k e by (simp add: len)
  have "map log_of_reply (zip scriptIds ?replies) ! k
      \<in> set (map log_of_reply (zip scriptIds ?replies))"
    by (rule nth_mem) (simp add: len k)
  then have inlog: "LogError (js ''Error resolving scriptId '' @ scriptIds ! k @ js '':'') e
      \<in> set (logged (snd (resolveMultipleScriptIds session scriptIds w)))"
    using k e by (simp add: lg len)
  have others: "\<exists>r. ?replies ! i = Inr r \<and> ?results ! i = Source r"
    if "i < length scriptIds" "i \<noteq> k" for i
  proof (cases "?replies ! i")
    case (Inl e')
    with fails that show ?thesis by blast
  next
    case (Inr r)
    with that show ?thesis by (simp add: len)
  qed
  show ?thesis
    using res len undef e inlog others by auto
qed

theorem resolveMultipleScriptIds_failed_lookup_witness:
  "\<exists>results e.
      fst (resolveMultipleScriptIds demo_session [js ''a'', js ''b'', js ''c''] world0) = Inr results
      \<and> length results = 3
      \<and> results ! 1 = Undefined
      \<and> source_replies demo_session [js ''a'', js ''b'', js ''c''] (sess world0) ! 1 = Inl e
      \<and> LogError (js ''Error resolving scriptId b:'') e
           \<in> set (logged (snd (resolveMultipleScriptIds demo_session
                 [js ''a'', js ''b'', js ''c''] world0)))
      \<and> results ! 0 = Source \<lparr>scriptSource = js ''a'', bytecode = None\<rparr>
      \<and> results ! 2 = Source \<lparr>scriptSource = js ''c'', bytecode = None\<rparr>"
proof -
  let ?ids = "[js ''a'', js ''b'', js ''c'']"
  have k: "(1::nat) < length ?ids" by simp
  have fails: "\<forall>i < length ?ids.
      (\<exists>e. source_replies demo_session ?ids (sess world0) ! i = Inl e) \<longleftrightarrow> i = 1"
    by (auto simp add: demo_replies less_Suc_eq numeral_3_eq_3 simp del: source_replies.simps)
  from resolveMultipleScriptIds_failed_lookup [OF k fails]
  obtain results e where
    r: "fst (resolveMultipleScriptIds demo_session ?ids world0) = Inr results"
      "length results = length ?ids" "results ! 1 = Undefined"
      "source_replies demo_session ?ids (sess world0) ! 1 = Inl e"
      "LogError (js ''Error resolving scriptId '' @ ?ids ! 1 @ js '':'') e
         \<in> set (logged (snd (resolveMultipleScriptIds demo_session ?ids world0)))"
      "\<forall>i < length ?ids. i \<noteq> 1 \<longrightarrow>
          (\<exists>r. source_replies demo_session ?ids (sess world0) ! i = Inr r \<and> results ! i = Source r)"
    by blast
  from r(6) have "\<exists>r. source_replies demo_session ?ids (sess world0) ! 0 = Inr r \<and> results ! 0 = Source r"
    by simp
  then have r0: "results ! 0 = Source \<lparr>scriptSource = js ''a'', bytecode = None\<rparr>"
    by (simp add: demo_replies del: source_replies.simps)
  from r(6) have "\<exists>r. source_replies demo_session ?ids (sess world0) ! 2 = Inr r \<and> results ! 2 = Source r"
    by simp
  then have r2: "results ! 2 = Source \<lparr>scriptSource = js ''c'', bytecode = None\<rparr>"
    by (simp add: demo_replies del: source_replies.simps)
  from r(5) have lg: "LogError (js ''Error resolving scriptId b:'') e
      \<in> set (logged (snd (resolveMultipleScriptIds demo_session ?ids world0)))"
    by (simp add: js_def)
  from r(1-4) r0 r2 lg show ?thesis
    by (simp del: source_replies.simps)
qed


section \<open>Properties of the extraction at a breakpoint\<close>

lemma defined_bindings_append:
  "defined_bindings (xs @ ys) = defined_bindings xs @ defined_bindings ys"
  by (induction xs) (simp_all split: option.split)

lemma merge_last_wins_append:
  "merge_last_wins (xs @ ys) = merge_last_wins xs ++ merge_last_wins ys"
  by (simp add: merge_last_wins_def defined_bindings_append)

lemma merge_last_wins_Cons:
  "merge_last_wins (p # rest) =
     (case primitive_of p of
        None \<Rightarrow> merge_last_wins rest
      | Some v \<Rightarrow> [name p \<mapsto> v] ++ merge_last_wins rest)"
  by (simp add: merge_last_wins_def split: option.split)

lemma assign_property_other:
  "n \<noteq> js ''__proto__'' \<Longrightarrow> own (assign_property key v obj) n = ((own obj)(key \<mapsto> v)) n"
  by (simp add: assign_property_def)

lemma assign_property_Some:
  "own (assign_property key v obj) n = Some x \<Longrightarrow> own obj n = Some x \<or> (key = n \<and> v = x)"
  by (auto simp add: assign_property_def split: if_splits)

lemma props_loop_Cons:
  "props_loop (p # rest) obj =
     props_loop rest
       (case primitive_of p of None \<Rightarrow> obj | Some v \<Rightarrow> assign_property (name p) v obj)"
  by (simp add: primitive_of_def split: option.split)

lemma props_loop_other:
  "n \<noteq> js ''__proto__'' \<Longrightarrow>
     own (props_loop props obj) n = (own obj ++ merge_last_wins props) n"
proof (induction props arbitrary: obj)
  case Nil
  show ?case by (simp add: merge_last_wins_def)
next
  case (Cons p rest)
  show ?case
  proof (cases "primitive_of p")
    case None
    with Cons show ?thesis
      by (simp add: props_loop_Cons merge_last_wins_Cons del: props_loop.simps)
  next
    case (Some v)
    have "own (props_loop (p # rest) obj) n =
        (own (assign_property (name p) v obj) ++ merge_last_wins rest) n"
      using Cons Some by (simp add: props_loop_Cons del: props_loop.simps)
    also have "\<dots> = (own obj ++ ([name p \<mapsto> v] ++ merge_last_wins rest)) n"
      using Cons.prems by (simp add: map_add_def assign_property_other split: option.split)
    finally show ?thesis
      using Some by (simp add: merge_last_wins_Cons)
  qed
qed

lemma props_loop_Some:
  "own (props_loop props obj) n = Some x \<Longrightarrow>
     own obj n = Some x \<or> (\<exists>p \<in> set props. name p = n \<and> primitive_of p = Some x)"
proof (induction props arbitrary: obj)
  case Nil
  then show ?case by simp
next
  case (Cons p rest)
  show ?case
  proof (cases "primitive_of p")
    case None
    with Cons.prems have "own (props_loop rest obj) n = Some x"
      by (simp add: props_loop_Cons del: props_loop.simps)
    then have "own obj n = Some x \<or> (\<exists>q \<in> set rest. name q = n \<and> primitive_of q = Some x)"
      by (rule Cons.IH)
    then show ?thesis by auto
  next
    case (Some v)
    with Cons.prems have "own (props_loop rest (assign_property (name p) v obj)) n = Some x"
      by (simp add: props_loop_Cons del: props_loop.simps)
    then have "own (assign_property (name p) v obj) n = Some x
        \<or> (\<exists>q \<in> set rest. name q = n \<and> primitive_of q = Some x)"
      by (rule Cons.IH)
    then show ?thesis
    proof
      assume "own (assign_property (name p) v obj) n = Some x"
      then have "own obj n = Some x \<or> (name p = n \<and> v = x)"
        by (rule assign_property_Some)
      with Some show ?thesis by auto
    next
      assume "\<exists>q \<in> set rest. name q = n \<and> primitive_of q = Some x"
      then show ?thesis by auto
    qed
  qed
qed

lemma scopes_loop_other:
  "n \<noteq> js ''__proto__'' \<Longrightarrow>
     own (fst (scopes_loop session scopes w obj)) n =
       (own obj ++ merge_last_wins (fetched (property_replies session scopes (sess w)))) n"
proof (induction scopes arbitrary: w obj)
  case Nil
  show ?case by (simp add: merge_last_wins_def)
next
  case (Cons scope rest)
  show ?case
  proof (cases "stype scope = Closure")
    case False
    with Cons show ?thesis by simp
  next
    case True
    obtain reply s' where g: "getProperties session (sess w) (properties_request scope) = (reply, s')"
      by (cases "getProperties session (sess w) (properties_request scope)")
    show ?thesis
    proof (cases reply)
      case (Inl err)
      with True g Cons show ?thesis
        by (simp add: logger_error_def)
    next
      case (Inr result)
      have "own (fst (scopes_loop session (scope # rest) w obj)) n =
          (own (props_loop result obj)
             ++ merge_last_wins (fetched (property_replies session rest s'))) n"
        using True g Inr Cons by simp
      also have "\<dots> = ((own obj ++ merge_last_wins result)
             ++ merge_last_wins (fetched (property_replies session rest s'))) n"
        using props_loop_other [OF Cons.prems, of result obj]
        by (simp add: map_add_def split: option.split)
      finally show ?thesis
        using True g Inr by (simp add: merge_last_wins_append)
    qed
  qed
qed

lemma scopes_loop_Some:
  "own (fst (scopes_loop session scopes w obj)) n = Some x \<Longrightarrow>
     own obj n = Some x
     \<or> (\<exists>p \<in> set (fetched (property_replies session scopes (sess w))).
          name p = n \<and> primitive_of p = Some x)"
proof (induction scopes arbitrary: w obj)
  case Nil
  then show ?case by simp
next
  case (Cons scope rest)
  show ?case
  proof (cases "stype scope = Closure")
    case False
    with Cons.prems have "own (fst (scopes_loop session rest w obj)) n = Some x" by simp
    then have "own obj n = Some x
        \<or> (\<exists>p \<in> set (fetched (property_replies session rest (sess w))).
             name p = n \<and> primitive_of p = Some x)"
      by (rule Cons.IH)
    with False show ?thesis by simp
  next
    case True
    obtain reply s' where g: "getProperties session (sess w) (properties_request scope) = (reply, s')"
      by (cases "getProperties session (sess w) (properties_request scope)")
    show ?thesis
    proof (cases reply)
      case (Inl err)
      let ?w = "logger_error (js ''Failed to get properties'') err (w\<lparr>sess := s'\<rparr>)"
      from Cons.prems True g Inl
      have "own (fst (scopes_loop session rest ?w obj)) n = Some x" by simp
      then have "own obj n = Some x
          \<or> (\<exists>p \<in> set (fetched (property_replies session rest (sess ?w))).
               name p = n \<and> primitive_of p = Some x)"
        by (rule Cons.IH)
      with True g Inl show ?thesis by (simp add: logger_error_def)
    next
      case (Inr result)
      from Cons.prems True g Inr
      have "own (fst (scopes_loop session rest (w\<lparr>sess := s'\<rparr>) (props_loop result obj))) n = Some x"
        by simp
      then have "own (props_loop result obj) n = Some x
          \<or> (\<exists>p \<in> set (fetched (property_replies session rest (sess (w\<lparr>sess := s'\<rparr>)))).
               name p = n \<and> primitive_of p = Some x)"
        by (rule Cons.IH)
      then have "own obj n = Some x
          \<or> (\<exists>p \<in> set result. name p = n \<and> primitive_of p = Some x)
          \<or> (\<exists>p \<in> set (fetched (property_replies session rest s')).
               name p = n \<and> primitive_of p = Some x)"
        using props_loop_Some [of result obj n x] by auto
      with True g Inr show ?thesis by auto
    qed
  qed
qed

lemma scopes_loop_logged:
  "logged (snd (scopes_loop session scopes w vars)) =
     logged w @ map (LogError (js ''Failed to get properties''))
       (failures (property_replies session scopes (sess w)))"
proof (induction scopes arbitrary: w vars)
  case Nil
  show ?case by simp
next
  case (Cons scope rest)
  show ?case
  proof (cases "stype scope = Closure")
    case False
    then show ?thesis by (simp add: Cons.IH)
  next
    case True
    obtain reply s' where g: "getProperties session (sess w) (properties_request scope) = (reply, s')"
      by (cases "getProperties session (sess w) (properties_request scope)")
    show ?thesis
    proof (cases reply)
      case (Inl err)
      with True g show ?thesis
        by (simp add: Cons.IH logger_error_def)
    next
      case (Inr result)
      with True g show ?thesis
        by (simp add: Cons.IH)
    qed
  qed
qed

lemma scopes_loop_append:
  "scopes_loop session (xs @ ys) w vars =
     (case scopes_loop session xs w vars of (vars', w') \<Rightarrow> scopes_loop session ys w' vars')"
  by (induction xs arbitrary: w vars) (simp_all split: prod.split sum.split)

lemma property_replies_length:
  "length (property_replies session scopes s) = length (filter (\<lambda>sc. stype sc = Closure) scopes)"
  by (induction scopes arbitrary: s) (simp_all split: prod.split)

lemma dom_merge_last_wins:
  "dom (merge_last_wins props) = {name p | p. p \<in> set props \<and> primitive_of p \<noteq> None}"
proof -
  have "fst ` set (defined_bindings props) = {name p | p. p \<in> set props \<and> primitive_of p \<noteq> None}"
    by (induction props) (auto split: option.splits)
  then show ?thesis
    by (simp add: merge_last_wins_def dom_map_of_conv_image_fst)
qed

lemma primitive_of_Some_iff:
  "primitive_of p = Some v \<longleftrightarrow> (\<exists>ro. pvalue p = Some ro \<and> rvalue ro = Some v)"
  by (auto simp add: primitive_of_def split: option.splits)

lemma primitive_of_defined_iff:
  "primitive_of p \<noteq> None \<longleftrightarrow> (\<exists>ro v. pvalue p = Some ro \<and> rvalue ro = Some v)"
  by (auto simp add: primitive_of_def split: option.splits)

lemma handleBreakpointHit_frame:
  "callFrames params = frame # frames \<Longrightarrow>
     handleBreakpointHit session params w =
       (Inr (fst (scopes_loop session (scopeChain frame) w empty_object)),
        snd (scopes_loop session (scopeChain frame) w empty_object))"
  by (simp add: handleBreakpointHit_def split: prod.split)

text \<open>
  The assignment to the key \<open>__proto__\<close> on the concrete descriptors: the number 5 is
  dropped; \<open>null\<close> replaces the prototype and creates no property; once the prototype is
  \<open>null\<close>, the key is an ordinary one.
\<close>

lemma props_loop_proto_number:
  "props_loop [proto5_desc] empty_object = (empty_object :: int js_object)"
  by (simp add: proto5_desc_def empty_object_def assign_property_def)

lemma props_loop_proto_null:
  "props_loop [proto_null_desc] empty_object =
     (\<lparr>own = Map.empty, prototype = NullPrototype\<rparr> :: int js_object)"
  by (simp add: proto_null_desc_def empty_object_def assign_property_def)

lemma props_loop_proto_null_then_number:
  "props_loop [proto_null_desc, proto5_desc] empty_object =
     (\<lparr>own = [js ''__proto__'' \<mapsto> JsNumber 5], prototype = NullPrototype\<rparr> :: int js_object)"
  by (simp add: proto_null_desc_def proto5_desc_def empty_object_def assign_property_def)

lemma demo_property_replies:
  "property_replies demo_session (scopeChain demo_frame) (sess world0) =
     [Inr [x1_desc, f_desc, g_desc], Inl (Error (js ''context destroyed'')),
      Inr [x2_desc, y_desc]]"
  by (simp add: demo_frame_def demo_scope_def demo_session_def properties_request_def js_def)

lemma demo_snapshot:
  "fst (handleBreakpointHit demo_session demo_event world0) =
     Inr \<lparr>own = [js ''x'' \<mapsto> JsNumber 2, js ''y'' \<mapsto> JsNumber 5], prototype = ObjectPrototype\<rparr>"
  by (simp add: handleBreakpointHit_def demo_event_def demo_frame_def demo_scope_def
     demo_session_def properties_request_def js_def world0_def logger_error_def
     x1_desc_def x2_desc_def f_desc_def g_desc_def y_desc_def empty_object_def
     assign_property_def)

lemma demo_pre_loop:
  "scopes_loop demo_session [demo_scope Local ''0'', demo_scope Closure ''1''] world0 empty_object =
     (\<lparr>own = [js ''x'' \<mapsto> JsNumber 1], prototype = ObjectPrototype\<rparr>,
      \<lparr>sess = 1, logged = []\<rparr>)"
  by (simp add: demo_scope_def demo_session_def properties_request_def js_def world0_def
      x1_desc_def f_desc_def g_desc_def empty_object_def assign_property_def)

text \<open>
  Claim C1, as stated, fails: for an event without call frames the extraction does not
  return an empty snapshot. Reading \<open>scopeChain\<close> of the missing frame 0 throws.
\<close>

theorem handleBreakpointHit_no_frames_counterexample:
  "callFrames no_frames = []
   \<and> fst (handleBreakpointHit demo_session no_frames world0) = Inl scopeChain_of_undefined
   \<and> fst (handleBreakpointHit demo_session no_frames world0) \<noteq> Inr empty_object"
  by (simp add: handleBreakpointHit_def no_frames_def)

text \<open>
  Claim C1, amended. For every pause event whose call-frame list is empty,
  \<open>handleBreakpointHit\<close> fails with a \<open>TypeError\<close> (its promise is rejected);
  no request is sent and nothing is logged.
\<close>

theorem handleBreakpointHit_no_frames:
  "callFrames params = [] \<Longrightarrow>
     handleBreakpointHit session params w = (Inl scopeChain_of_undefined, w)"
  by (simp add: handleBreakpointHit_def)

theorem handleBreakpointHit_no_frames_witness:
  "callFrames no_frames = []
   \<and> handleBreakpointHit demo_session no_frames world0 = (Inl scopeChain_of_undefined, world0)"
proof -
  have h: "callFrames no_frames = []" by (simp add: no_frames_def)
  show ?thesis using h handleBreakpointHit_no_frames [OF h, of demo_session world0] by simp
qed

text \<open>
  Claim C6, as stated, fails: a descriptor whose value is defined is not always merged.
  In the concrete session the descriptor of \<open>f\<close> has a value (a reference to a
  function object) and is fetched from a closure scope of the innermost frame, but the
  snapshot has no entry for \<open>f\<close>.
\<close>

theorem handleBreakpointHit_snapshot_counterexample:
  "callFrames demo_event = [demo_frame]
   \<and> f_desc \<in> set (fetched (property_replies demo_session (scopeChain demo_frame) (sess world0)))
   \<and> pvalue f_desc \<noteq> None
   \<and> fst (handleBreakpointHit demo_session demo_event world0) =
       Inr \<lparr>own = [js ''x'' \<mapsto> JsNumber 2, js ''y'' \<mapsto> JsNumber 5], prototype = ObjectPrototype\<rparr>
   \<and> own (\<lparr>own = [js ''x'' \<mapsto> JsNumber 2, js ''y'' \<mapsto> JsNumber 5], prototype = ObjectPrototype\<rparr> :: int js_object)
         (name f_desc) = None"
proof -
  have a: "callFrames demo_event = [demo_frame]" by (simp add: demo_event_def)
  have b: "f_desc \<in> set (fetched (property_replies demo_session (scopeChain demo_frame) (sess world0)))"
    by (simp only: demo_property_replies fetched.simps) simp
  have c: "pvalue f_desc \<noteq> None" by (simp add: f_desc_def)
  have d: "own (\<lparr>own = [js ''x'' \<mapsto> JsNumber 2, js ''y'' \<mapsto> JsNumber 5], prototype = ObjectPrototype\<rparr> :: int js_object)
         (name f_desc) = None"
    by (simp add: f_desc_def js_def)
  show ?thesis
    by (intro conjI a b c d demo_snapshot)
qed

text \<open>
  Claim C6, amended. For every pause event with a non-empty frame list,
  \<open>handleBreakpointHit\<close> returns a snapshot which, at every name other than
  \<open>__proto__\<close>, equals the last-write-wins merge, in scope-chain order, of exactly those
  property descriptors that carry a value object with a defined primitive \<open>value\<close>
  field, taken from the successfully fetched closure scopes of the innermost frame. The
  merge is empty for no descriptors, holds the one binding of a single descriptor that
  has a primitive value and nothing for one that has not, and on a concatenation lets
  the later descriptors overwrite the earlier ones.
\<close>

theorem handleBreakpointHit_snapshot:
  "callFrames params = frame # frames \<Longrightarrow>
     (\<exists>snapshot.
        fst (handleBreakpointHit session params w) = Inr snapshot
        \<and> (\<forall>n. n \<noteq> js ''__proto__'' \<longrightarrow>
              own snapshot n =
                merge_last_wins (fetched (property_replies session (scopeChain frame) (sess w))) n))
     \<and> merge_last_wins ([] :: 'v property_descriptor list) = Map.empty
     \<and> merge_last_wins [p] =
         (case pvalue p of
            None \<Rightarrow> Map.empty
          | Some ro \<Rightarrow> (case rvalue ro of None \<Rightarrow> Map.empty | Some v \<Rightarrow> [name p \<mapsto> v]))
     \<and> merge_last_wins (ps @ qs) = merge_last_wins ps ++ merge_last_wins qs"
proof -
  assume frames: "callFrames params = frame # frames"
  let ?snapshot = "fst (scopes_loop session (scopeChain frame) w empty_object)"
  have res: "fst (handleBreakpointHit session params w) = Inr ?snapshot"
    using frames by (simp add: handleBreakpointHit_frame)
  have other: "\<forall>n. n \<noteq> js ''__proto__'' \<longrightarrow>
      own ?snapshot n =
        merge_last_wins (fetched (property_replies session (scopeChain frame) (sess w))) n"
    by (simp add: scopes_loop_other empty_object_def)
  have first: "\<exists>snapshot.
        fst (handleBreakpointHit session params w) = Inr snapshot
        \<and> (\<forall>n. n \<noteq> js ''__proto__'' \<longrightarrow>
              own snapshot n =
                merge_last_wins (fetched (property_replies session (scopeChain frame) (sess w))) n)"
    using res other by blast
  have nil: "merge_last_wins ([] :: 'v property_descriptor list) = Map.empty"
    by (simp add: merge_last_wins_def)
  have single: "merge_last_wins [p] =
         (case pvalue p of
            None \<Rightarrow> Map.empty
          | Some ro \<Rightarrow> (case rvalue ro of None \<Rightarrow> Map.empty | Some v \<Rightarrow> [name p \<mapsto> v]))"
    by (simp add: merge_last_wins_def primitive_of_def split: option.split)
  show ?thesis
    by (intro conjI first nil single merge_last_wins_append)
qed

theorem handleBreakpointHit_snapshot_witness:
  "callFrames demo_event = demo_frame # []
   \<and> fst (handleBreakpointHit demo_session demo_event world0) =
       Inr \<lparr>own = [js ''x'' \<mapsto> JsNumber 2, js ''y'' \<mapsto> JsNumber 5], prototype = ObjectPrototype\<rparr>
   \<and> own (\<lparr>own = [js ''x'' \<mapsto> JsNumber 2, js ''y'' \<mapsto> JsNumber 5], prototype = ObjectPrototype\<rparr> :: int js_object) (js ''x'') =
       merge_last_wins [x1_desc, f_desc, g_desc, x2_desc, y_desc] (js ''x'')
   \<and> merge_last_wins [x1_desc, f_desc, g_desc, x2_desc, y_desc] (js ''x'') = Some (JsNumber 2)"
proof -
  have h: "callFrames demo_event = demo_frame # []" by (simp add: demo_event_def)
  have F: "fetched (property_replies demo_session (scopeChain demo_frame) (sess world0)) =
      [x1_desc, f_desc, g_desc, x2_desc, y_desc]"
    by (simp only: demo_property_replies fetched.simps append.simps)
  have key: "js ''x'' \<noteq> js ''__proto__''" by (simp add: js_def)
  from handleBreakpointHit_snapshot [OF h, of demo_session world0, THEN conjunct1]
  obtain snapshot where s: "fst (handleBreakpointHit demo_session demo_event world0) = Inr snapshot"
    and o: "\<forall>n. n \<noteq> js ''__proto__'' \<longrightarrow>
        own snapshot n =
          merge_last_wins (fetched (property_replies demo_session (scopeChain demo_frame) (sess world0))) n"
    by blast
  from s have snap: "snapshot = \<lparr>own = [js ''x'' \<mapsto> JsNumber 2, js ''y'' \<mapsto> JsNumber 5], prototype = ObjectPrototype\<rparr>"
    by (simp only: demo_snapshot sum.inject)
  from o key have "own snapshot (js ''x'') =
      merge_last_wins (fetched (property_replies demo_session (scopeChain demo_frame) (sess world0)))
        (js ''x'')"
    by blast
  then have x: "own (\<lparr>own = [js ''x'' \<mapsto> JsNumber 2, js ''y'' \<mapsto> JsNumber 5], prototype = ObjectPrototype\<rparr> :: int js_object) (js ''x'') =
       merge_last_wins [x1_desc, f_desc, g_desc, x2_desc, y_desc] (js ''x'')"
    by (simp only: snap F)
  have v: "merge_last_wins [x1_desc, f_desc, g_desc, x2_desc, y_desc] (js ''x'') = Some (JsNumber 2)"
    by (simp add: merge_last_wins_def primitive_of_def js_def
        x1_desc_def x2_desc_def f_desc_def g_desc_def y_desc_def)
  show ?thesis
    by (intro conjI h demo_snapshot x v)
qed

text \<open>
  Claim C7. For every closure scope whose property request fails, the extraction logs the
  failure and continues with the remaining scopes: the snapshot accumulated so far is
  passed on unchanged, the scopes after the failing one are processed from the state
  the failed request left, and the extraction returns a snapshot, not a fault. Over the
  whole run one error is logged per failed request, and one request is sent per closure
  scope.
\<close>

theorem handleBreakpointHit_failed_scope:
  assumes frames: "callFrames params = frame # frames"
    and chain: "scopeChain frame = pre @ scope # post"
    and closure: "stype scope = Closure"
    and before: "scopes_loop session pre w empty_object = (vars1, w1)"
    and fails: "getProperties session (sess w1) (properties_request scope) = (Inl err, s2)"
  shows "handleBreakpointHit session params w =
      (case scopes_loop session post
              (w1\<lparr>sess := s2,
                  logged := logged w1 @ [LogError (js ''Failed to get properties'') err]\<rparr>)
              vars1
       of (vars, w') \<Rightarrow> (Inr vars, w'))
    \<and> (\<exists>snapshot. fst (handleBreakpointHit session params w) = Inr snapshot)
    \<and> logged (snd (handleBreakpointHit session params w)) =
        logged w @ map (LogError (js ''Failed to get properties''))
          (failures (property_replies session (scopeChain frame) (sess w)))
    \<and> length (property_replies session (scopeChain frame) (sess w)) =
        length (filter (\<lambda>sc. stype sc = Closure) (scopeChain frame))"
proof -
  let ?w2 = "w1\<lparr>sess := s2,
      logged := logged w1 @ [LogError (js ''Failed to get properties'') err]\<rparr>"
  have step: "scopes_loop session (scope # post) w1 vars1 = scopes_loop session post ?w2 vars1"
    using closure fails by (simp add: logger_error_def)
  have whole: "scopes_loop session (scopeChain frame) w empty_object =
      scopes_loop session post ?w2 vars1"
    using before step by (simp add: chain scopes_loop_append del: scopes_loop.simps)
  obtain vars w' where loop: "scopes_loop session post ?w2 vars1 = (vars, w')"
    by (cases "scopes_loop session post ?w2 vars1")
  have res: "handleBreakpointHit session params w = (Inr vars, w')"
    by (simp add: handleBreakpointHit_def frames whole loop)
  have lg: "logged (snd (handleBreakpointHit session params w)) =
        logged w @ map (LogError (js ''Failed to get properties''))
          (failures (property_replies session (scopeChain frame) (sess w)))"
    using scopes_loop_logged [of session "scopeChain frame" w empty_object]
    by (cases "scopes_loop session (scopeChain frame) w empty_object")
       (simp add: handleBreakpointHit_def frames)
  show ?thesis
    using res loop lg by (simp add: property_replies_length)
qed

theorem handleBreakpointHit_failed_scope_witness:
  "handleBreakpointHit demo_session demo_event world0 =
     (Inr \<lparr>own = [js ''x'' \<mapsto> JsNumber 2, js ''y'' \<mapsto> JsNumber 5], prototype = ObjectPrototype\<rparr>,
      \<lparr>sess = 3, logged = [LogError (js ''Failed to get properties'') (Error (js ''context destroyed''))]\<rparr>)
   \<and> logged (snd (handleBreakpointHit demo_session demo_event world0)) =
       logged world0 @ [LogError (js ''Failed to get properties'') (Error (js ''context destroyed''))]"
proof -
  let ?err = "Error (js ''context destroyed'')"
  have frames: "callFrames demo_event = demo_frame # []"
    by (simp add: demo_event_def)
  have chain: "scopeChain demo_frame =
      [demo_scope Local ''0'', demo_scope Closure ''1''] @ demo_scope Closure ''2''
        # [demo_scope Closure ''3'', demo_scope Global ''4'']"
    by (simp add: demo_frame_def)
  have closure: "stype (demo_scope Closure ''2'') = Closure"
    by (simp add: demo_scope_def)
  have fails: "getProperties demo_session (sess \<lparr>sess = 1, logged = []\<rparr>)
      (properties_request (demo_scope Closure ''2'')) = (Inl ?err, 2)"
    by (simp add: demo_session_def demo_scope_def properties_request_def js_def)
  have post: "scopes_loop demo_session [demo_scope Closure ''3'', demo_scope Global ''4'']
      (\<lparr>sess = 1, logged = []\<rparr>\<lparr>sess := 2,
          logged := logged \<lparr>sess = 1::nat, logged = []\<rparr>
            @ [LogError (js ''Failed to get properties'') ?err]\<rparr>)
      \<lparr>own = [js ''x'' \<mapsto> JsNumber 1], prototype = ObjectPrototype\<rparr> =
      (\<lparr>own = [js ''x'' \<mapsto> JsNumber 2, js ''y'' \<mapsto> JsNumber 5], prototype = ObjectPrototype\<rparr>,
       \<lparr>sess = 3, logged = [LogError (js ''Failed to get properties'') ?err]\<rparr>)"
    by (simp add: demo_scope_def demo_session_def properties_request_def js_def
        x2_desc_def y_desc_def assign_property_def)
  note inst = handleBreakpointHit_failed_scope [OF frames chain closure demo_pre_loop fails]
  have failed: "failures (property_replies demo_session (scopeChain demo_frame) (sess world0)) = [?err]"
    by (simp only: demo_property_replies failures.simps)
  have "handleBreakpointHit demo_session demo_event world0 =
     (Inr \<lparr>own = [js ''x'' \<mapsto> JsNumber 2, js ''y'' \<mapsto> JsNumber 5], prototype = ObjectPrototype\<rparr>,
      \<lparr>sess = 3, logged = [LogError (js ''Failed to get properties'') ?err]\<rparr>)"
    using inst [THEN conjunct1] by (simp only: post prod.case)
  moreover have "logged (snd (handleBreakpointHit demo_session demo_event world0)) =
       logged world0 @ [LogError (js ''Failed to get properties'') ?err]"
    using inst [THEN conjunct2, THEN conjunct2, THEN conjunct1]
    by (simp only: failed list.map)
  ultimately show ?thesis by (intro conjI)
qed

text \<open>
  Claim C10. A name is in the snapshot only when some fetched descriptor of that name
  carries a value object whose primitive \<open>value\<close> field is defined, and the value
  stored comes from such a descriptor. A name whose descriptors all carry a remote
  object without a primitive value is omitted though their value is present; the loop
  skips such a descriptor. For every name other than \<open>__proto__\<close> a descriptor with a
  defined primitive value does put the name into the snapshot.
\<close>

theorem handleBreakpointHit_primitive_only:
  assumes frames: "callFrames params = frame # frames"
    and result: "fst (handleBreakpointHit session params w) = Inr snapshot"
  shows "(n \<in> dom (own snapshot) \<longrightarrow>
        (\<exists>p \<in> set (fetched (property_replies session (scopeChain frame) (sess w))).
           name p = n \<and> (\<exists>ro v. pvalue p = Some ro \<and> rvalue ro = Some v)))
    \<and> (\<forall>v. own snapshot n = Some v \<longrightarrow>
        (\<exists>p \<in> set (fetched (property_replies session (scopeChain frame) (sess w))).
           name p = n \<and> (\<exists>ro. pvalue p = Some ro \<and> rvalue ro = Some v)))
    \<and> ((\<forall>p \<in> set (fetched (property_replies session (scopeChain frame) (sess w))).
           name p = n \<longrightarrow> (\<exists>ro. pvalue p = Some ro \<and> rvalue ro = None))
        \<longrightarrow> own snapshot n = None)
    \<and> (\<forall>q ro rest vars. pvalue q = Some ro \<and> rvalue ro = None \<longrightarrow>
          props_loop (q # rest) vars = props_loop rest vars)
    \<and> (n \<noteq> js ''__proto__'' \<longrightarrow>
        (n \<in> dom (own snapshot) \<longleftrightarrow>
          (\<exists>p \<in> set (fetched (property_replies session (scopeChain frame) (sess w))).
             name p = n \<and> (\<exists>ro v. pvalue p = Some ro \<and> rvalue ro = Some v))))"
proof -
  let ?F = "fetched (property_replies session (scopeChain frame) (sess w))"
  have snap: "snapshot = fst (scopes_loop session (scopeChain frame) w empty_object)"
    using result frames by (simp add: handleBreakpointHit_frame)
  have s: "\<forall>v. own snapshot n = Some v \<longrightarrow>
      (\<exists>p \<in> set ?F. name p = n \<and> (\<exists>ro. pvalue p = Some ro \<and> rvalue ro = Some v))"
  proof (intro allI impI)
    fix v assume "own snapshot n = Some v"
    then have "own empty_object n = Some v
        \<or> (\<exists>p \<in> set ?F. name p = n \<and> primitive_of p = Some v)"
      unfolding snap by (rule scopes_loop_Some)
    then have "\<exists>p \<in> set ?F. name p = n \<and> primitive_of p = Some v"
      by (simp add: empty_object_def)
    then show "\<exists>p \<in> set ?F. name p = n \<and> (\<exists>ro. pvalue p = Some ro \<and> rvalue ro = Some v)"
      by (simp only: primitive_of_Some_iff)
  qed
  have d: "n \<in> dom (own snapshot) \<longrightarrow>
      (\<exists>p \<in> set ?F. name p = n \<and> (\<exists>ro v. pvalue p = Some ro \<and> rvalue ro = Some v))"
  proof
    assume "n \<in> dom (own snapshot)"
    then obtain v where "own snapshot n = Some v" by blast
    with s show "\<exists>p \<in> set ?F. name p = n \<and> (\<exists>ro v. pvalue p = Some ro \<and> rvalue ro = Some v)"
      by blast
  qed
  have o: "(\<forall>p \<in> set ?F. name p = n \<longrightarrow> (\<exists>ro. pvalue p = Some ro \<and> rvalue ro = None))
      \<longrightarrow> own snapshot n = None"
  proof
    assume all: "\<forall>p \<in> set ?F. name p = n \<longrightarrow> (\<exists>ro. pvalue p = Some ro \<and> rvalue ro = None)"
    show "own snapshot n = None"
    proof (rule ccontr)
      assume "own snapshot n \<noteq> None"
      then obtain v where "own snapshot n = Some v" by blast
      with s obtain p ro where p: "p \<in> set ?F" "name p = n" "pvalue p = Some ro" "rvalue ro = Some v"
        by blast
      from all p(1,2) obtain ro' where "pvalue p = Some ro'" "rvalue ro' = None" by blast
      with p(3,4) show False by simp
    qed
  qed
  have l: "\<forall>q ro rest vars. pvalue q = Some ro \<and> rvalue ro = None \<longrightarrow>
          props_loop (q # rest) vars = props_loop rest vars"
    by simp
  have e: "n \<noteq> js ''__proto__'' \<longrightarrow>
        (n \<in> dom (own snapshot) \<longleftrightarrow>
          (\<exists>p \<in> set ?F. name p = n \<and> (\<exists>ro v. pvalue p = Some ro \<and> rvalue ro = Some v)))"
  proof
    assume n: "n \<noteq> js ''__proto__''"
    have "own snapshot n = merge_last_wins ?F n"
      unfolding snap using n by (simp add: scopes_loop_other empty_object_def)
    then have "n \<in> dom (own snapshot) \<longleftrightarrow> n \<in> dom (merge_last_wins ?F)"
      by (simp add: dom_def)
    also have "\<dots> \<longleftrightarrow> (\<exists>p \<in> set ?F. name p = n \<and> primitive_of p \<noteq> None)"
      unfolding dom_merge_last_wins by auto
    finally show "n \<in> dom (own snapshot) \<longleftrightarrow>
          (\<exists>p \<in> set ?F. name p = n \<and> (\<exists>ro v. pvalue p = Some ro \<and> rvalue ro = Some v))"
      by (simp only: primitive_of_defined_iff)
  qed
  show ?thesis
    by (intro conjI d s o l e)
qed

theorem handleBreakpointHit_primitive_only_witness:
  "fst (handleBreakpointHit demo_session demo_event world0) =
     Inr \<lparr>own = [js ''x'' \<mapsto> JsNumber 2, js ''y'' \<mapsto> JsNumber 5], prototype = ObjectPrototype\<rparr>
   \<and> f_desc \<in> set (fetched (property_replies demo_session (scopeChain demo_frame) (sess world0)))
   \<and> pvalue f_desc =
       Some \<lparr>rtype = js ''function'', rvalue = None, objectId = Some (js ''10'')\<rparr>
   \<and> own (\<lparr>own = [js ''x'' \<mapsto> JsNumber 2, js ''y'' \<mapsto> JsNumber 5], prototype = ObjectPrototype\<rparr> :: int js_object)
         (js ''f'') = None"
proof -
  let ?F = "fetched (property_replies demo_session (scopeChain demo_frame) (sess world0))"
  have frames: "callFrames demo_event = demo_frame # []"
    by (simp add: demo_event_def)
  note inst = handleBreakpointHit_primitive_only [OF frames demo_snapshot, of "js ''f''"]
  have F: "?F = [x1_desc, f_desc, g_desc, x2_desc, y_desc]"
    by (simp only: demo_property_replies fetched.simps append.simps)
  have hyp: "\<forall>p \<in> set ?F. name p = js ''f'' \<longrightarrow> (\<exists>ro. pvalue p = Some ro \<and> rvalue ro = None)"
    unfolding F
    by (simp add: x1_desc_def f_desc_def g_desc_def x2_desc_def y_desc_def js_def)
  have omitted: "own (\<lparr>own = [js ''x'' \<mapsto> JsNumber 2, js ''y'' \<mapsto> JsNumber 5], prototype = ObjectPrototype\<rparr> :: int js_object)
         (js ''f'') = None"
    using inst [THEN conjunct2, THEN conjunct2, THEN conjunct1] hyp by (rule mp)
  have mem: "f_desc \<in> set ?F"
    unfolding F by simp
  have pv: "pvalue f_desc =
       Some \<lparr>rtype = js ''function'', rvalue = None, objectId = Some (js ''10'')\<rparr>"
    by (simp add: f_desc_def)
  show ?thesis
    by (intro conjI demo_snapshot mem pv omitted)
qed


section \<open>Properties of the source-map reference\<close>

lemmas sourcemap_eval =
  extractSourceMapUrl_def js_def marker_text_def is_white_space_def is_line_terminator_def
  split_js.simps


lemma marker_text_starts: "\<exists>m. marker_text = 0x73 # m"
  by (simp add: marker_text_def js_def)

lemma dropWhile_white_space_marker:
  assumes "\<forall>x \<in> set ws. is_white_space x"
  shows "dropWhile is_white_space (ws @ marker_text @ t) = marker_text @ t"
proof -
  obtain m where m: "marker_text = 0x73 # m"
    using marker_text_starts by blast
  have "\<not> is_white_space (0x73 :: 16 word)"
    by (simp add: is_white_space_def)
  then have "dropWhile is_white_space (marker_text @ t) = marker_text @ t"
    by (simp add: m)
  moreover have "dropWhile is_white_space (ws @ marker_text @ t) =
      dropWhile is_white_space (marker_text @ t)"
    using assms by simp
  ultimately show ?thesis by simp
qed

lemma takeWhile_value:
  assumes "\<forall>x \<in> set v. \<not> is_line_terminator x"
    and "rest = [] \<or> is_line_terminator (hd rest)"
  shows "takeWhile (\<lambda>c. \<not> is_line_terminator c) (v @ rest) = v"
proof (cases rest)
  case Nil
  with assms(1) show ?thesis by simp
next
  case (Cons r rs)
  with assms(2) have "is_line_terminator r" by simp
  with assms(1) Cons show ?thesis by (simp add: takeWhile_tail)
qed

lemma match_here_marker:
  assumes "c = 0x23 \<or> c = 0x40"
    and "\<forall>x \<in> set ws. is_white_space x"
    and "v \<noteq> []"
    and "\<forall>x \<in> set v. \<not> is_line_terminator x"
    and "rest = [] \<or> is_line_terminator (hd rest)"
  shows "match_here ([0x2F, 0x2F, c] @ ws @ marker_text @ v @ rest) = Some v"
proof -
  have d: "dropWhile is_white_space (ws @ marker_text @ v @ rest) = marker_text @ v @ rest"
    using assms(2) by (rule dropWhile_white_space_marker)
  have t: "takeWhile (\<lambda>c. \<not> is_line_terminator c) (v @ rest) = v"
    using assms(4,5) by (rule takeWhile_value)
  show ?thesis
    using assms(1,3) by (simp add: d t Let_def)
qed

lemma match_here_decompose:
  assumes "match_here s = Some v"
  shows "\<exists>c ws rest.
        s = [0x2F, 0x2F, c] @ ws @ marker_text @ v @ rest
        \<and> (c = 0x23 \<or> c = 0x40)
        \<and> (\<forall>x \<in> set ws. is_white_space x)
        \<and> v \<noteq> []
        \<and> (\<forall>x \<in> set v. \<not> is_line_terminator x)
        \<and> (rest = [] \<or> is_line_terminator (hd rest))"
proof -
  from assms obtain c1 c2 c3 rest0 where s: "s = c1 # c2 # c3 # rest0"
    by (cases s rule: match_here.cases) simp_all
  let ?ws = "takeWhile is_white_space rest0"
  let ?r = "dropWhile is_white_space rest0"
  let ?t = "drop (length marker_text) ?r"
  let ?rest = "dropWhile (\<lambda>c. \<not> is_line_terminator c) ?t"
  from assms s have c: "c1 = 0x2F" "c2 = 0x2F" "c3 = 0x23 \<or> c3 = 0x40"
    by (auto split: if_splits)
  from assms s c have m: "take (length marker_text) ?r = marker_text"
    by (auto simp add: Let_def split: if_splits)
  from assms s c m have v: "v = takeWhile (\<lambda>c. \<not> is_line_terminator c) ?t" "v \<noteq> []"
    by (auto simp add: Let_def split: if_splits)
  have "rest0 = ?ws @ ?r" by simp
  also have "?r = marker_text @ ?t"
    using m by (metis append_take_drop_id)
  also have "?t = v @ ?rest"
    using v(1) by simp
  finally have "s = [0x2F, 0x2F, c3] @ ?ws @ marker_text @ v @ ?rest"
    using s c by simp
  moreover have "\<forall>x \<in> set ?ws. is_white_space x"
    by (auto dest: set_takeWhileD)
  moreover have "\<forall>x \<in> set v. \<not> is_line_terminator x"
    unfolding v(1) by (auto dest: set_takeWhileD)
  moreover have "?rest = [] \<or> is_line_terminator (hd ?rest)"
    using hd_dropWhile [of "\<lambda>c. \<not> is_line_terminator c" ?t] by blast
  ultimately show ?thesis
    using c(3) v(2) by blast
qed

lemma marker_at_match:
  "marker_at text i v \<longleftrightarrow> match_here (drop i text) = Some v"
proof
  assume "marker_at text i v"
  then obtain c ws rest where
    d: "drop i text = [0x2F, 0x2F, c] @ ws @ marker_text @ v @ rest"
    and p: "c = 0x23 \<or> c = 0x40" "\<forall>x \<in> set ws. is_white_space x" "v \<noteq> []"
      "\<forall>x \<in> set v. \<not> is_line_terminator x" "rest = [] \<or> is_line_terminator (hd rest)"
    unfolding marker_at_def by blast
  from p have "match_here ([0x2F, 0x2F, c] @ ws @ marker_text @ v @ rest) = Some v"
    by (rule match_here_marker)
  then show "match_here (drop i text) = Some v"
    by (simp only: d)
next
  assume "match_here (drop i text) = Some v"
  then show "marker_at text i v"
    unfolding marker_at_def by (rule match_here_decompose)
qed

lemma regex_exec_None_iff:
  "regex_exec s = None \<longleftrightarrow> (\<forall>i. match_here (drop i s) = None)"
proof (induction s)
  case Nil
  show ?case by simp
next
  case (Cons c cs)
  show ?case
  proof (cases "match_here (c # cs)")
    case (Some u)
    have "\<not> (\<forall>i. match_here (drop i (c # cs)) = None)"
    proof
      assume "\<forall>i. match_here (drop i (c # cs)) = None"
      then have "match_here (drop 0 (c # cs)) = None" by (rule spec)
      with Some show False by simp
    qed
    with Some show ?thesis by simp
  next
    case None
    have "(\<forall>i. match_here (drop i (c # cs)) = None) \<longleftrightarrow> (\<forall>i. match_here (drop i cs) = None)"
    proof
      assume a: "\<forall>i. match_here (drop i (c # cs)) = None"
      show "\<forall>i. match_here (drop i cs) = None"
      proof
        fix i from a have "match_here (drop (Suc i) (c # cs)) = None" by blast
        then show "match_here (drop i cs) = None" by simp
      qed
    next
      assume a: "\<forall>i. match_here (drop i cs) = None"
      show "\<forall>i. match_here (drop i (c # cs)) = None"
      proof
        fix i show "match_here (drop i (c # cs)) = None"
          using a None by (cases i) simp_all
      qed
    qed
    with None Cons.IH show ?thesis by simp
  qed
qed

lemma regex_exec_first:
  assumes "match_here (drop i s) = Some v"
    and "\<forall>j<i. match_here (drop j s) = None"
  shows "regex_exec s = Some v"
  using assms
proof (induction s arbitrary: i)
  case Nil
  then show ?case by simp
next
  case (Cons c cs)
  show ?case
  proof (cases i)
    case 0
    with Cons.prems(1) show ?thesis by simp
  next
    case (Suc k)
    with Cons.prems(2) have none: "match_here (c # cs) = None"
      by (metis drop0 zero_less_Suc)
    from Suc Cons.prems(1) have here: "match_here (drop k cs) = Some v" by simp
    have "\<forall>j<k. match_here (drop j cs) = None"
    proof (intro allI impI)
      fix j assume "j < k"
      then have "Suc j < i" using Suc by simp
      with Cons.prems(2) have "match_here (drop (Suc j) (c # cs)) = None" by blast
      then show "match_here (drop j cs) = None" by simp
    qed
    with here have "regex_exec cs = Some v" by (rule Cons.IH)
    with none show ?thesis by simp
  qed
qed

lemma regex_exec_Some_first:
  assumes "regex_exec s = Some v"
  shows "\<exists>i. match_here (drop i s) = Some v \<and> (\<forall>j<i. match_here (drop j s) = None)"
  using assms
proof (induction s)
  case Nil
  then show ?case by simp
next
  case (Cons c cs)
  show ?case
  proof (cases "match_here (c # cs)")
    case (Some u)
    with Cons.prems have "match_here (drop 0 (c # cs)) = Some v" by simp
    then show ?thesis by blast
  next
    case None
    with Cons.prems have "regex_exec cs = Some v" by simp
    then obtain i where i: "match_here (drop i cs) = Some v"
        "\<forall>j<i. match_here (drop j cs) = None"
      using Cons.IH by blast
    have "match_here (drop (Suc i) (c # cs)) = Some v" using i(1) by simp
    moreover have "\<forall>j<Suc i. match_here (drop j (c # cs)) = None"
    proof (intro allI impI)
      fix j assume "j < Suc i"
      then show "match_here (drop j (c # cs)) = None"
        using None i(2) by (cases j) simp_all
    qed
    ultimately show ?thesis by blast
  qed
qed

lemma split_js_nonempty_sep:
  "sep \<noteq> [] \<Longrightarrow>
     split_js sep s =
       (case index_of sep s of
          None \<Rightarrow> [s]
        | Some i \<Rightarrow> take i s # split_js sep (drop (i + length sep) s))"
  by (subst split_js.simps) simp

lemma extractSourceMapUrl_of_match:
  assumes "regex_exec text = Some v"
  shows "extractSourceMapUrl text =
     Url (case index_of (js ''base64,'') v of
            None \<Rightarrow> v
          | Some k \<Rightarrow>
              (case index_of (js ''base64,'') (drop (k + 7) v) of
                 None \<Rightarrow> drop (k + 7) v
               | Some j \<Rightarrow> take j (drop (k + 7) v)))"
proof (cases "index_of (js ''base64,'') v")
  case None
  with assms show ?thesis by (simp add: extractSourceMapUrl_def)
next
  case (Some k)
  have ne: "js ''base64,'' \<noteq> []" by (simp add: js_def)
  have len: "length (js ''base64,'') = 7" by (simp add: js_def)
  have first: "split_js (js ''base64,'') v =
      take k v # split_js (js ''base64,'') (drop (k + 7) v)"
    using split_js_nonempty_sep [OF ne, of v] Some len by simp
  have second: "split_js (js ''base64,'') (drop (k + 7) v) =
      (case index_of (js ''base64,'') (drop (k + 7) v) of
         None \<Rightarrow> [drop (k + 7) v]
       | Some j \<Rightarrow> take j (drop (k + 7) v)
           # split_js (js ''base64,'') (drop (j + length (js ''base64,'')) (drop (k + 7) v)))"
    by (rule split_js_nonempty_sep [OF ne])
  show ?thesis
    using assms Some first second
    by (simp add: extractSourceMapUrl_def split: option.split)
qed

lemma extractSourceMapUrl_Null_iff:
  "extractSourceMapUrl text = UrlNull \<longleftrightarrow> regex_exec text = None"
proof (cases "regex_exec text")
  case None
  then show ?thesis by (simp add: extractSourceMapUrl_def)
next
  case (Some v)
  then show ?thesis using extractSourceMapUrl_of_match [OF Some] by simp
qed

lemma regex_exec_marker_line:
  assumes "v \<noteq> []" "\<forall>x \<in> set v. \<not> is_line_terminator x"
  shows "regex_exec (marker_line v) = Some v"
proof -
  have "match_here ([0x2F, 0x2F, 0x23] @ [] @ marker_text @ v @ []) = Some v"
    using assms by (intro match_here_marker) simp_all
  then have "match_here (drop 0 (marker_line v)) = Some v"
    by (simp add: marker_line_def)
  then show ?thesis
    by (rule regex_exec_first) simp
qed

text \<open>
  Claim C3, as stated, fails: with two marker lines the result is not taken from the
  last one. The text has the markers \<open>a.map\<close> at position 0 and \<open>b.map\<close> at
  position 27, and the result is \<open>a.map\<close>.
\<close>

theorem extractSourceMapUrl_takes_first_counterexample:
  "match_here (drop 0 two_markers) = Some (js ''a.map'')
   \<and> match_here (drop 27 two_markers) = Some (js ''b.map'')
   \<and> extractSourceMapUrl two_markers = Url (js ''a.map'')
   \<and> extractSourceMapUrl two_markers \<noteq> Url (js ''b.map'')"
  by (simp add: two_markers_def sourcemap_eval)

text \<open>
  Claim C3, amended. For every source text containing more than one marker,
  \<open>extractSourceMapUrl\<close> takes its result from the first one: the match is the value
  of the first marker, and the result is the result for that marker line alone.
\<close>

theorem extractSourceMapUrl_takes_first:
  assumes first: "marker_at text i v"
    and later: "marker_at text k u"
    and order: "i < k"
    and least: "\<forall>j<i. \<forall>x. \<not> marker_at text j x"
  shows "regex_exec text = Some v
    \<and> extractSourceMapUrl text = extractSourceMapUrl (marker_line v)"
proof -
  from first have here: "match_here (drop i text) = Some v"
    by (simp add: marker_at_match)
  have "\<forall>j<i. match_here (drop j text) = None"
  proof (intro allI impI)
    fix j assume "j < i"
    with least have "\<forall>x. \<not> marker_at text j x" by blast
    then have "\<forall>x. match_here (drop j text) \<noteq> Some x"
      by (simp add: marker_at_match)
    then show "match_here (drop j text) = None" by (cases "match_here (drop j text)") auto
  qed
  with here have r: "regex_exec text = Some v" by (rule regex_exec_first)
  from first have "v \<noteq> []" "\<forall>x \<in> set v. \<not> is_line_terminator x"
    unfolding marker_at_def by blast+
  then have "regex_exec (marker_line v) = Some v" by (rule regex_exec_marker_line)
  with r have "extractSourceMapUrl text = extractSourceMapUrl (marker_line v)"
    by (simp add: extractSourceMapUrl_def)
  with r show ?thesis by simp
qed

theorem extractSourceMapUrl_takes_first_witness:
  "marker_at two_markers 0 (js ''a.map'') \<and> marker_at two_markers 27 (js ''b.map'')
   \<and> regex_exec two_markers = Some (js ''a.map'')
   \<and> extractSourceMapUrl two_markers = extractSourceMapUrl (marker_line (js ''a.map''))
   \<and> extractSourceMapUrl (marker_line (js ''a.map'')) = Url (js ''a.map'')"
proof -
  have a: "marker_at two_markers 0 (js ''a.map'')"
    by (simp add: marker_at_match two_markers_def sourcemap_eval)
  have b: "marker_at two_markers 27 (js ''b.map'')"
    by (simp add: marker_at_match two_markers_def sourcemap_eval)
  have o: "(0::nat) < 27" by simp
  have l: "\<forall>j<0::nat. \<forall>x. \<not> marker_at two_markers j x" by simp
  note inst = extractSourceMapUrl_takes_first [OF a b o l]
  have c: "extractSourceMapUrl (marker_line (js ''a.map'')) = Url (js ''a.map'')"
    by (simp add: marker_line_def sourcemap_eval)
  show ?thesis
    by (intro conjI a b inst [THEN conjunct1] inst [THEN conjunct2] c)
qed

text \<open>
  Claim C4, as stated, fails where the value contains \<open>base64,\<close> twice: the result is
  the second piece of \<open>split\<close>, which ends at the next \<open>base64,\<close>, not the
  portion after the marker.
\<close>

theorem extractSourceMapUrl_first_marker_counterexample:
  "regex_exec (js ''//# sourceMappingURL=data:base64,AAbase64,BB'') = Some twice_base64
   \<and> index_of (js ''base64,'') twice_base64 = Some 5
   \<and> drop (5 + 7) twice_base64 = js ''AAbase64,BB''
   \<and> extractSourceMapUrl (js ''//# sourceMappingURL=data:base64,AAbase64,BB'') = Url (js ''AA'')
   \<and> extractSourceMapUrl (js ''//# sourceMappingURL=data:base64,AAbase64,BB'')
       \<noteq> Url (js ''AAbase64,BB'')"
  by (simp add: sourcemap_eval twice_base64_def)

text \<open>
  Claim C4, amended. For every input text, \<open>extractSourceMapUrl\<close> returns the value of
  the first marker found scanning from the top; if that value contains \<open>base64,\<close> it
  returns the portion between the first \<open>base64,\<close> and the next one (or the end of
  the value), otherwise the value verbatim; it returns \<open>null\<close> exactly when no marker
  exists, and never \<open>undefined\<close>. The two examples of the specification hold.
\<close>

theorem extractSourceMapUrl_first_marker:
  "(marker_at text i v \<and> (\<forall>j<i. \<forall>u. \<not> marker_at text j u) \<longrightarrow>
      extractSourceMapUrl text =
        Url (case index_of (js ''base64,'') v of
               None \<Rightarrow> v
             | Some k \<Rightarrow>
                 (case index_of (js ''base64,'') (drop (k + 7) v) of
                    None \<Rightarrow> drop (k + 7) v
                  | Some j \<Rightarrow> take j (drop (k + 7) v))))
   \<and> ((\<forall>i v. \<not> marker_at text i v) \<longleftrightarrow> extractSourceMapUrl text = UrlNull)
   \<and> extractSourceMapUrl text \<noteq> UrlUndefined
   \<and> extractSourceMapUrl (js ''// code'' @ [0x0A] @ js ''//# sourceMappingURL=abc.map'')
       = Url (js ''abc.map'')
   \<and> extractSourceMapUrl (js ''//# sourceMappingURL=data:application/json;base64,eyJ9'')
       = Url (js ''eyJ9'')"
proof -
  have first: "marker_at text i v \<and> (\<forall>j<i. \<forall>u. \<not> marker_at text j u) \<longrightarrow>
      extractSourceMapUrl text =
        Url (case index_of (js ''base64,'') v of
               None \<Rightarrow> v
             | Some k \<Rightarrow>
                 (case index_of (js ''base64,'') (drop (k + 7) v) of
                    None \<Rightarrow> drop (k + 7) v
                  | Some j \<Rightarrow> take j (drop (k + 7) v)))"
  proof
    assume a: "marker_at text i v \<and> (\<forall>j<i. \<forall>u. \<not> marker_at text j u)"
    then have here: "match_here (drop i text) = Some v"
      by (simp add: marker_at_match)
    have "\<forall>j<i. match_here (drop j text) = None"
    proof (intro allI impI)
      fix j assume "j < i"
      with a have "\<forall>u. \<not> marker_at text j u" by blast
      then have "\<forall>u. match_here (drop j text) \<noteq> Some u"
        by (simp add: marker_at_match)
      then show "match_here (drop j text) = None" by (cases "match_here (drop j text)") auto
    qed
    with here have "regex_exec text = Some v" by (rule regex_exec_first)
    then show "extractSourceMapUrl text =
        Url (case index_of (js ''base64,'') v of
               None \<Rightarrow> v
             | Some k \<Rightarrow>
                 (case index_of (js ''base64,'') (drop (k + 7) v) of
                    None \<Rightarrow> drop (k + 7) v
                  | Some j \<Rightarrow> take j (drop (k + 7) v)))"
      by (rule extractSourceMapUrl_of_match)
  qed
  have "(\<forall>i v. \<not> marker_at text i v) \<longleftrightarrow> (\<forall>i. match_here (drop i text) = None)"
    by (simp add: marker_at_match)
  then have none: "(\<forall>i v. \<not> marker_at text i v) \<longleftrightarrow> extractSourceMapUrl text = UrlNull"
    by (simp only: extractSourceMapUrl_Null_iff regex_exec_None_iff)
  have undef: "extractSourceMapUrl text \<noteq> UrlUndefined"
  proof (cases "regex_exec text")
    case None
    then show ?thesis by (simp add: extractSourceMapUrl_def)
  next
    case (Some m)
    then show ?thesis using extractSourceMapUrl_of_match [OF Some] by simp
  qed
  have ex1: "extractSourceMapUrl (js ''// code'' @ [0x0A] @ js ''//# sourceMappingURL=abc.map'')
       = Url (js ''abc.map'')"
    by (simp add: sourcemap_eval)
  have ex2: "extractSourceMapUrl (js ''//# sourceMappingURL=data:application/json;base64,eyJ9'')
       = Url (js ''eyJ9'')"
    by (simp add: sourcemap_eval)
  show ?thesis
    by (intro conjI first none undef ex1 ex2)
qed

theorem extractSourceMapUrl_first_marker_witness:
  "marker_at twice_base64_text 2 twice_base64
   \<and> extractSourceMapUrl twice_base64_text = Url (js ''AA'')"
proof -
  have m: "marker_at twice_base64_text 2 twice_base64"
    by (simp add: marker_at_match twice_base64_text_def twice_base64_def sourcemap_eval)
  have n: "\<forall>j<2. \<forall>u. \<not> marker_at twice_base64_text j u"
  proof (intro allI impI)
    fix j :: nat and u
    assume "j < 2"
    then consider "j = 0" | "j = 1" by arith
    then show "\<not> marker_at twice_base64_text j u"
      by cases (simp_all add: marker_at_match twice_base64_text_def sourcemap_eval)
  qed
  have "extractSourceMapUrl twice_base64_text =
        Url (case index_of (js ''base64,'') twice_base64 of
               None \<Rightarrow> twice_base64
             | Some k \<Rightarrow>
                 (case index_of (js ''base64,'') (drop (k + 7) twice_base64) of
                    None \<Rightarrow> drop (k + 7) twice_base64
                  | Some j \<Rightarrow> take j (drop (k + 7) twice_base64)))"
    using extractSourceMapUrl_first_marker [of twice_base64_text 2 twice_base64, THEN conjunct1]
      conjI [OF m n] by (rule mp)
  then have "extractSourceMapUrl twice_base64_text = Url (js ''AA'')"
    by (simp add: twice_base64_def js_def)
  with m show ?thesis by (intro conjI)
qed


section \<open>Properties of the source-map decoder\<close>



text \<open>
  On Node.js the decoders do not throw: the result is \<open>null\<close> with an error logged
  exactly when the decoded text is not a document.
\<close>

lemma getSourceMapJSON_node:
  "getSourceMapJSON node text64 w =
     (case json_parse_text (node_toString (node_from_base64 text64)) of
        Some doc \<Rightarrow> (Inr doc, w)
      | None \<Rightarrow>
          (Inr JNull,
           logger_error (js ''Error parsing source map'')
             (SyntaxError (node_toString (node_from_base64 text64))) w))"
  by (simp add: getSourceMapJSON_def node_def split: option.split)





section \<open>Properties of the pause-event waiter\<close>

lemma invoke_listeners: "listeners (invoke cb params rt) = listeners rt"
  by (cases cb) (simp_all add: resolve_def)

lemma invoke_length: "length (promises (invoke cb params rt)) = length (promises rt)"
  by (cases cb) (simp_all add: resolve_def)

lemma invoke_settled:
  "promises rt ! p = Fulfilled x \<Longrightarrow> promises (invoke cb params rt) ! p = Fulfilled x"
proof (cases cb)
  case (PausedHandler q)
  assume f: "promises rt ! p = Fulfilled x"
  show ?thesis
  proof (cases "q = p")
    case True
    with f PausedHandler show ?thesis by (simp add: resolve_def)
  next
    case False
    with f PausedHandler show ?thesis by (simp add: resolve_def)
  qed
next
  case (Foreign k)
  assume "promises rt ! p = Fulfilled x"
  with Foreign show ?thesis by simp
qed

lemma invoke_handler:
  assumes "p < length (promises rt)"
    and "promises rt ! p = Pending \<or> promises rt ! p = Fulfilled params"
  shows "promises (invoke (PausedHandler p) params rt) ! p = Fulfilled params"
  using assms by (auto simp add: resolve_def)

lemma invoke_pending_or_this:
  assumes "promises rt ! p = Pending \<or> promises rt ! p = Fulfilled params"
  shows "promises (invoke cb params rt) ! p = Pending
       \<or> promises (invoke cb params rt) ! p = Fulfilled params"
proof (cases cb)
  case (PausedHandler q)
  show ?thesis
  proof (cases "q = p")
    case True
    with assms PausedHandler show ?thesis by (auto simp add: resolve_def)
  next
    case False
    with assms PausedHandler show ?thesis by (auto simp add: resolve_def)
  qed
next
  case (Foreign k)
  with assms show ?thesis by simp
qed

lemma fold_invoke_listeners:
  "listeners (fold (\<lambda>l. invoke (callback l) params) ls rt) = listeners rt"
  by (induction ls arbitrary: rt) (simp_all add: invoke_listeners)

lemma fold_invoke_length:
  "length (promises (fold (\<lambda>l. invoke (callback l) params) ls rt)) = length (promises rt)"
  by (induction ls arbitrary: rt) (simp_all add: invoke_length)

lemma fold_invoke_settled:
  "promises rt ! p = Fulfilled x \<Longrightarrow>
     promises (fold (\<lambda>l. invoke (callback l) params) ls rt) ! p = Fulfilled x"
  by (induction ls arbitrary: rt) (simp_all add: invoke_settled)

lemma fold_invoke_delivers:
  assumes "l \<in> set ls" and "callback l = PausedHandler p"
    and "p < length (promises rt)"
    and "promises rt ! p = Pending \<or> promises rt ! p = Fulfilled params"
  shows "promises (fold (\<lambda>l. invoke (callback l) params) ls rt) ! p = Fulfilled params"
  using assms
proof (induction ls arbitrary: rt)
  case Nil
  then show ?case by simp
next
  case (Cons a ls)
  let ?rt = "invoke (callback a) params rt"
  show ?case
  proof (cases "a = l")
    case True
    with Cons.prems(2) have "callback a = PausedHandler p" by simp
    with Cons.prems(3,4) have "promises ?rt ! p = Fulfilled params"
      by (simp only: invoke_handler)
    then show ?thesis by (simp add: fold_invoke_settled)
  next
    case False
    with Cons.prems have "l \<in> set ls" by simp
    moreover have "p < length (promises ?rt)"
      using Cons.prems(3) by (simp add: invoke_length)
    moreover have "promises ?rt ! p = Pending \<or> promises ?rt ! p = Fulfilled params"
      using Cons.prems(4) by (rule invoke_pending_or_this)
    ultimately have "promises (fold (\<lambda>l. invoke (callback l) params) ls ?rt) ! p
        = Fulfilled params"
      using Cons.prems(2) by (intro Cons.IH)
    then show ?thesis by simp
  qed
qed

lemma emit_listeners:
  "listeners (emit params rt) = filter (\<lambda>l. \<not> is_once l) (listeners rt)"
  by (simp add: emit_def fold_invoke_listeners)

lemma emit_settled:
  "promises rt ! p = Fulfilled x \<Longrightarrow> promises (emit params rt) ! p = Fulfilled x"
  by (simp add: emit_def fold_invoke_settled)

lemma emits_settled:
  "promises rt ! p = Fulfilled x \<Longrightarrow> promises (fold emit later rt) ! p = Fulfilled x"
  by (induction later arbitrary: rt) (simp_all add: emit_settled)

text \<open>
  Claim C9. For every state of the session, a call to \<open>getNextPausedEvent\<close> registers
  exactly one listener, a one-time one, and returns a new pending promise. The next pause
  event the session emits fulfils the promise with that event and removes the
  registration; whatever pause events the session emits later, the promise keeps the
  first event.
\<close>

theorem getNextPausedEvent_once:
  "(case getNextPausedEvent rt of
      (p, rt1) \<Rightarrow>
        listeners rt1 = listeners rt @ [Listener True (PausedHandler p)]
        \<and> p = length (promises rt)
        \<and> promises rt1 = promises rt @ [Pending]
        \<and> promises (emit params rt1) ! p = Fulfilled params
        \<and> listeners (emit params rt1) = filter (\<lambda>l. \<not> is_once l) (listeners rt)
        \<and> Listener True (PausedHandler p) \<notin> set (listeners (emit params rt1))
        \<and> promises (fold emit later (emit params rt1)) ! p = Fulfilled params)"
proof -
  let ?p = "length (promises rt)"
  let ?rt1 = "rt\<lparr>promises := promises rt @ [Pending],
                 listeners := listeners rt @ [Listener True (PausedHandler ?p)]\<rparr>"
  have g: "getNextPausedEvent rt = (?p, ?rt1)"
    by (simp add: getNextPausedEvent_def new_promise_def session_once_def)
  have l: "listeners ?rt1 = listeners rt @ [Listener True (PausedHandler ?p)]" by simp
  have ps: "promises ?rt1 = promises rt @ [Pending]" by simp
  have d: "promises (emit params ?rt1) ! ?p = Fulfilled params"
    unfolding emit_def
  proof (rule fold_invoke_delivers)
    show "Listener True (PausedHandler ?p) \<in> set (listeners ?rt1)" by simp
    show "callback (Listener True (PausedHandler ?p)) = PausedHandler ?p" by simp
    show "?p < length (promises (?rt1\<lparr>listeners := filter (\<lambda>l. \<not> is_once l) (listeners ?rt1)\<rparr>))"
      by simp
    show "promises (?rt1\<lparr>listeners := filter (\<lambda>l. \<not> is_once l) (listeners ?rt1)\<rparr>) ! ?p = Pending
        \<or> promises (?rt1\<lparr>listeners := filter (\<lambda>l. \<not> is_once l) (listeners ?rt1)\<rparr>) ! ?p
            = Fulfilled params"
      by simp
  qed
  have r: "listeners (emit params ?rt1) = filter (\<lambda>l. \<not> is_once l) (listeners rt)"
    by (simp add: emit_listeners)
  have n: "Listener True (PausedHandler ?p) \<notin> set (listeners (emit params ?rt1))"
    by (simp add: emit_listeners)
  have a: "promises (fold emit later (emit params ?rt1)) ! ?p = Fulfilled params"
    using d by (rule emits_settled)
  show ?thesis
    unfolding g using l ps d r n a by simp
qed

end
